theory Spec2Isabelle
  imports Complex_Main "HOL-Library.Word"
begin

section \<open>Strings and protocol data\<close>

text \<open>
  A JavaScript string is a sequence of UTF-16 code units; the pattern of the validator has
  no \<open>u\<close> flag, so it works on code units, and so do \<open>m.index\<close>, \<open>m[0].length\<close>
  and the offsets of the text document. String literals of the source are ASCII and are
  written with \<open>utf16\<close>.
\<close>

type_synonym jschar = "16 word"
type_synonym jsstring = "jschar list"

definition utf16 :: "string \<Rightarrow> jsstring" where
  "utf16 s = map of_char s"

record Position =
  line :: nat
  character :: nat

record Range =
  range_start :: Position
  range_end :: Position

record Location =
  loc_uri :: jsstring
  loc_range :: Range

record DiagnosticRelatedInformation =
  location :: Location
  ri_message :: jsstring

text \<open>
  The severity of a finding is a number on the wire. The source takes the enumeration
  \<open>DiagnosticSeverity\<close> from the module \<open>vscode\<close> (line 32), where the members count
  from 0, and puts its member \<open>Warning\<close> into a \<open>Diagnostic\<close> of the language server
  protocol, which reads the number by its own enumeration, where the members count from 1.
  Neither module is part of the repository; \<open>vscodeSeverity\<close> and \<open>protocolSeverity\<close>
  are the numbers the two modules publish.
\<close>

datatype DiagnosticSeverity = Error | Warning | Information | Hint

fun vscodeSeverity :: "DiagnosticSeverity \<Rightarrow> nat" where
  "vscodeSeverity Error = 0"
| "vscodeSeverity Warning = 1"
| "vscodeSeverity Information = 2"
| "vscodeSeverity Hint = 3"

definition protocolSeverity :: "nat \<Rightarrow> DiagnosticSeverity option" where
  "protocolSeverity n =
     (if n = 1 then Some Error
      else if n = 2 then Some Warning
      else if n = 3 then Some Information
      else if n = 4 then Some Hint
      else None)"

record Diagnostic =
  severity :: nat
  range_of :: Range
  message :: jsstring
  source :: jsstring
  relatedInformation :: "DiagnosticRelatedInformation list option"

record TextDocument =
  uri :: jsstring
  version :: int
  content :: jsstring

text \<open>
  \<open>StrudelSettings.maxErrorCount\<close> is a JavaScript number; the embedding covers the
  integer values (the comparison \<open>errors < settings.maxErrorCount\<close> is then the order of
  the integers).
\<close>

record StrudelSettings =
  maxErrorCount :: int

definition defaultSettings :: StrudelSettings where
  "defaultSettings = \<lparr>maxErrorCount = 100\<rparr>"

section \<open>The pattern \<open>/\<bsol>b[A-Z]{2,}\<bsol>b/g\<close>\<close>

text \<open>
  The matcher of ECMAScript, written out for this pattern. \<open>isWordChar\<close> is the class
  \<open>[A-Za-z0-9_]\<close> behind \<open>\<bsol>b\<close>; \<open>wordBoundary text e\<close> is the assertion \<open>\<bsol>b\<close> at
  position \<open>e\<close>, which compares the character before \<open>e\<close> with the character at \<open>e\<close>,
  both counted as no word character outside the text.
\<close>

definition isUpperAZ :: "jschar \<Rightarrow> bool" where
  "isUpperAZ c = (0x41 \<le> c \<and> c \<le> 0x5A)"

definition isWordChar :: "jschar \<Rightarrow> bool" where
  "isWordChar c =
     (isUpperAZ c \<or> (0x61 \<le> c \<and> c \<le> 0x7A) \<or> (0x30 \<le> c \<and> c \<le> 0x39) \<or> c = 0x5F)"

definition isWordCharAt :: "jsstring \<Rightarrow> nat \<Rightarrow> bool" where
  "isWordCharAt text e = (e < length text \<and> isWordChar (text ! e))"

definition wordBoundary :: "jsstring \<Rightarrow> nat \<Rightarrow> bool" where
  "wordBoundary text e =
     (let a = (0 < e \<and> isWordCharAt text (e - 1)); b = isWordCharAt text e in a \<noteq> b)"

text \<open>
  \<open>[A-Z]{2,}\<close> is greedy: it first takes every capital that follows (\<open>upperRun\<close>), and
  then gives them back one at a time, down to two, until the closing \<open>\<bsol>b\<close> holds
  (\<open>tryLen\<close>). \<open>matchAt text i\<close> is the end of the match that starts at \<open>i\<close>, if any.
\<close>

definition upperRun :: "jsstring \<Rightarrow> nat \<Rightarrow> nat" where
  "upperRun text i = length (takeWhile isUpperAZ (drop i text))"

fun tryLen :: "jsstring \<Rightarrow> nat \<Rightarrow> nat \<Rightarrow> nat option" where
  "tryLen text i 0 = None"
| "tryLen text i (Suc k) =
     (if Suc k < 2 then None
      else if wordBoundary text (i + Suc k) then Some (i + Suc k)
      else tryLen text i k)"

definition matchAt :: "jsstring \<Rightarrow> nat \<Rightarrow> nat option" where
  "matchAt text i = (if wordBoundary text i then tryLen text i (upperRun text i) else None)"

text \<open>
  \<open>pattern.exec(text)\<close> with the \<open>g\<close> flag: the search starts at \<open>lastIndex\<close>, tries
  every position up to the length of the text, and returns \<open>m.index\<close> together with the
  end of the match, which is the next \<open>lastIndex\<close>; \<open>None\<close> is \<open>null\<close>.
\<close>

function exec :: "jsstring \<Rightarrow> nat \<Rightarrow> (nat \<times> nat) option" where
  "exec text lastIndex =
     (if length text < lastIndex then None
      else case matchAt text lastIndex of
             Some e \<Rightarrow> Some (lastIndex, e)
           | None \<Rightarrow> exec text (Suc lastIndex))"
  by pat_completeness auto
termination
  by (relation "measure (\<lambda>(text, lastIndex). Suc (length text) - lastIndex)") auto

declare exec.simps [simp del]

section \<open>The offset table of a text document\<close>

text \<open>
  Modelled from the spec: the document's own offset table, that is \<open>positionAt\<close> and
  \<open>offsetAt\<close> of the text document class, which the repository imports and does not
  define. A line starts at offset 0 and after every end of line (carriage return, line
  feed, or the two together); a position is the index of the last line that starts at or
  before the offset, and the distance from that start.
\<close>

text \<open>Modelled from the spec: the characters that end a line in the offset table.\<close>

definition isEOL :: "jschar \<Rightarrow> bool" where
  "isEOL c = (c = 0x0D \<or> c = 0x0A)"

text \<open>
  Modelled from the spec: the offsets after each end of line; a carriage return followed
  by a line feed ends one line.
\<close>

fun computeLineOffsets :: "jsstring \<Rightarrow> nat \<Rightarrow> nat list" where
  "computeLineOffsets [] i = []"
| "computeLineOffsets [c] i = (if isEOL c then [Suc i] else [])"
| "computeLineOffsets (c # d # cs) i =
     (if c = 0x0D \<and> d = 0x0A then (i + 2) # computeLineOffsets cs (i + 2)
      else if isEOL c then Suc i # computeLineOffsets (d # cs) (Suc i)
      else computeLineOffsets (d # cs) (Suc i))"

text \<open>
  Modelled from the spec: the offset table of a document, one entry for each line start.
\<close>

definition getLineOffsets :: "TextDocument \<Rightarrow> nat list" where
  "getLineOffsets doc = 0 # computeLineOffsets (content doc) 0"

text \<open>
  Modelled from the spec: \<open>positionAt\<close> of the text document class: the offset
  is clamped to the text, the line is the last one that starts at or before it.
\<close>

definition positionAt :: "TextDocument \<Rightarrow> nat \<Rightarrow> Position" where
  "positionAt doc offset =
     (let off = min offset (length (content doc));
          lineOffsets = getLineOffsets doc;
          low = length (takeWhile (\<lambda>lo. lo \<le> off) lineOffsets);
          ln = low - 1
      in \<lparr>line = ln, character = off - lineOffsets ! ln\<rparr>)"

text \<open>
  Modelled from the spec: \<open>offsetAt\<close> of the text document class: a line past
  the table gives the length of the text, a column past the line gives the start of the
  next line.
\<close>

definition offsetAt :: "TextDocument \<Rightarrow> Position \<Rightarrow> nat" where
  "offsetAt doc pos =
     (let lineOffsets = getLineOffsets doc in
      if length lineOffsets \<le> line pos then length (content doc)
      else
        let lineOffset = lineOffsets ! line pos;
            nextLineOffset =
              (if line pos + 1 < length lineOffsets then lineOffsets ! (line pos + 1)
               else length (content doc))
        in min (lineOffset + character pos) nextLineOffset)"

section \<open>The validator\<close>

text \<open>
  One finding, as the body of the loop of \<open>validateTextDocument\<close> builds it from
  \<open>m.index\<close> and \<open>m.index + m[0].length\<close>; \<open>m[0]\<close> is the text between the two.
  \<open>rel\<close> is the flag \<open>hasDiagnosticRelatedInformationCapability\<close>.
\<close>

definition substring :: "jsstring \<Rightarrow> nat \<Rightarrow> nat \<Rightarrow> jsstring" where
  "substring text s e = take (e - s) (drop s text)"

definition errorDiagnostic :: "bool \<Rightarrow> TextDocument \<Rightarrow> nat \<Rightarrow> nat \<Rightarrow> Diagnostic" where
  "errorDiagnostic rel doc s e =
     (let r = \<lparr>range_start = positionAt doc s, range_end = positionAt doc e\<rparr> in
      \<lparr>severity = vscodeSeverity Warning,
       range_of = r,
       message = substring (content doc) s e @ utf16 '' is all uppercase.'',
       source = utf16 ''strudel'',
       relatedInformation =
         (if rel then
            Some [\<lparr>location = \<lparr>loc_uri = uri doc, loc_range = r\<rparr>,
                   ri_message = utf16 ''Spelling matters''\<rparr>,
                  \<lparr>location = \<lparr>loc_uri = uri doc, loc_range = r\<rparr>,
                   ri_message = utf16 ''Especially for names''\<rparr>]
          else None)\<rparr>)"

text \<open>
  The loop of \<open>validateTextDocument\<close>: \<open>exec\<close> is called first, then the count is
  compared with \<open>settings.maxErrorCount\<close>; the state of the loop is \<open>lastIndex\<close> of the
  pattern, the counter \<open>errors\<close> and the array \<open>diagnostics\<close>.
\<close>

function validateLoop ::
  "bool \<Rightarrow> TextDocument \<Rightarrow> StrudelSettings \<Rightarrow> nat \<Rightarrow> nat \<Rightarrow> Diagnostic list \<Rightarrow> Diagnostic list"
where
  "validateLoop rel doc settings lastIndex errors diagnostics =
     (case exec (content doc) lastIndex of
        None \<Rightarrow> diagnostics
      | Some m \<Rightarrow>
          if int errors < maxErrorCount settings then
            validateLoop rel doc settings (snd m) (Suc errors)
              (diagnostics @ [errorDiagnostic rel doc (fst m) (snd m)])
          else diagnostics)"
  by pat_completeness auto
termination
  by (relation "measure (\<lambda>(rel, doc, settings, lastIndex, errors, diagnostics).
                   nat (maxErrorCount settings - int errors))") auto

declare validateLoop.simps [simp del]

text \<open>
  What \<open>validateTextDocument\<close> computes once the awaited settings are there.
\<close>

definition validateBody :: "bool \<Rightarrow> TextDocument \<Rightarrow> StrudelSettings \<Rightarrow> Diagnostic list" where
  "validateBody rel doc settings = validateLoop rel doc settings 0 0 []"

section \<open>Values on the wire\<close>

text \<open>
  The capabilities of the peer arrive as JSON. The handler of \<open>initialize\<close> reads them
  with property accesses, \<open>&&\<close> and \<open>!!\<close>, so the embedding keeps the values of
  JavaScript: a property access on \<open>undefined\<close> or \<open>null\<close> throws a \<open>TypeError\<close>, on
  an object it is the field or \<open>undefined\<close>, on any other value it is \<open>undefined\<close> for the
  names read here; \<open>truthy\<close> is the conversion to a boolean.
\<close>

datatype jsval =
    JUndefined
  | JNull
  | JBool bool
  | JNum real
  | JStr jsstring
  | JArr "jsval list"
  | JObj "(string \<times> jsval) list"

datatype error = TypeError | ResponseError

fun truthy :: "jsval \<Rightarrow> bool" where
  "truthy JUndefined = False"
| "truthy JNull = False"
| "truthy (JBool b) = b"
| "truthy (JNum r) = (r \<noteq> 0)"
| "truthy (JStr s) = (s \<noteq> [])"
| "truthy (JArr vs) = True"
| "truthy (JObj fs) = True"

fun getProp :: "jsval \<Rightarrow> string \<Rightarrow> error + jsval" where
  "getProp JUndefined p = Inl TypeError"
| "getProp JNull p = Inl TypeError"
| "getProp (JObj fs) p = Inr (case map_of fs p of None \<Rightarrow> JUndefined | Some v \<Rightarrow> v)"
| "getProp v p = Inr JUndefined"

text \<open>\<open>a && b\<close>, where reading \<open>b\<close> may throw: \<open>b\<close> is read only when \<open>a\<close> is truthy.\<close>

definition andAlso :: "jsval \<Rightarrow> (error + jsval) \<Rightarrow> error + jsval" where
  "andAlso a b = (if truthy a then b else Inr a)"

definition bind :: "(error + 'a) \<Rightarrow> ('a \<Rightarrow> error + 'b) \<Rightarrow> error + 'b" where
  "bind m f = (case m of Inl e \<Rightarrow> Inl e | Inr v \<Rightarrow> f v)"

section \<open>The session\<close>

text \<open>
  The variables of the server module, with the document manager and the messages sent to
  the peer. A configuration pull returns a new promise; the promise is named by the place
  of its request among the messages sent, and the cache \<open>documentSettings\<close> holds these
  names. \<open>folderListener\<close> records the handler registered by \<open>onInitialized\<close>.
\<close>

datatype outgoing =
    ConfigurationRequest jsstring jsstring
  | DiagnosticsRefresh
  | RegisterDidChangeConfiguration
  | ConsoleLog jsstring

datatype 'a thenable = Resolved 'a | Pending nat

record session =
  hasConfigurationCapability :: bool
  hasWorkspaceFolderCapability :: bool
  hasDiagnosticRelatedInformationCapability :: bool
  globalSettings :: StrudelSettings
  documentSettings :: "jsstring \<rightharpoonup> nat"
  documents :: "jsstring \<rightharpoonup> TextDocument"
  folderListener :: bool
  outbound :: "outgoing list"

definition initialSession :: session where
  "initialSession =
     \<lparr>hasConfigurationCapability = False,
      hasWorkspaceFolderCapability = False,
      hasDiagnosticRelatedInformationCapability = False,
      globalSettings = defaultSettings,
      documentSettings = Map.empty,
      documents = Map.empty,
      folderListener = False,
      outbound = []\<rparr>"

subsection \<open>Initialization\<close>

datatype TextDocumentSyncKind = SyncNone | Full | Incremental

record InitializeParams =
  capabilities :: jsval

record InitializeResult =
  textDocumentSync :: TextDocumentSyncKind
  resolveProvider :: bool
  interFileDependencies :: bool
  workspaceDiagnostics :: bool
  workspaceFoldersSupported :: "bool option"

definition onInitialize ::
  "session \<Rightarrow> InitializeParams \<Rightarrow> error + (InitializeResult \<times> session)" where
  "onInitialize s params =
     (let caps = capabilities params in
      bind (bind (getProp caps ''workspace'')
              (\<lambda>w. andAlso w (bind (getProp w ''configuration'')
                                 (\<lambda>c. Inr (JBool (truthy c))))))
        (\<lambda>cfg.
      bind (bind (getProp caps ''workspace'')
              (\<lambda>w. andAlso w (bind (getProp w ''workspaceFolders'')
                                 (\<lambda>f. Inr (JBool (truthy f))))))
        (\<lambda>wf.
      bind (bind (getProp caps ''textDocument'')
              (\<lambda>td. andAlso td
                 (bind (getProp td ''publishDiagnostics'')
                    (\<lambda>pd. andAlso pd (getProp pd ''relatedInformation'')))))
        (\<lambda>ri.
      Inr (\<lparr>textDocumentSync = Incremental,
            resolveProvider = True,
            interFileDependencies = False,
            workspaceDiagnostics = False,
            workspaceFoldersSupported = (if truthy wf then Some True else None)\<rparr>,
           s\<lparr>hasConfigurationCapability := truthy cfg,
             hasWorkspaceFolderCapability := truthy wf,
             hasDiagnosticRelatedInformationCapability := truthy ri\<rparr>)))))"

definition onInitialized :: "session \<Rightarrow> session" where
  "onInitialized s =
     (let s1 = (if hasConfigurationCapability s
                then s\<lparr>outbound := outbound s @ [RegisterDidChangeConfiguration]\<rparr>
                else s)
      in if hasWorkspaceFolderCapability s1 then s1\<lparr>folderListener := True\<rparr> else s1)"

subsection \<open>Settings\<close>

text \<open>
  The notification of a configuration change carries \<open>change.settings\<close> (here
  \<open>change_settings\<close>), a value without a type: it may be \<open>undefined\<close> or \<open>null\<close>, and
  then reading its field \<open>strudelLanguageServer\<close> throws a \<open>TypeError\<close>; otherwise the
  field is a \<open>StrudelSettings\<close> or is not there (\<open>None\<close>). The field is read only when
  the configuration pull is unsupported. A handler that throws has assigned nothing and
  has not asked for a refresh.
\<close>

record ConfigurationSettings =
  strudelLanguageServer :: "StrudelSettings option"

datatype ConfigurationValue =
    SettingsUndefined
  | SettingsNull
  | SettingsObject ConfigurationSettings

record DidChangeConfigurationParams =
  change_settings :: ConfigurationValue

definition onDidChangeConfiguration ::
  "session \<Rightarrow> DidChangeConfigurationParams \<Rightarrow> error + session" where
  "onDidChangeConfiguration s change =
     bind (if hasConfigurationCapability s
           then Inr (s\<lparr>documentSettings := Map.empty\<rparr>)
           else case change_settings change of
                  SettingsUndefined \<Rightarrow> Inl TypeError
                | SettingsNull \<Rightarrow> Inl TypeError
                | SettingsObject obj \<Rightarrow>
                    Inr (s\<lparr>globalSettings :=
                            (case strudelLanguageServer obj of
                               Some v \<Rightarrow> v
                             | None \<Rightarrow> defaultSettings)\<rparr>))
       (\<lambda>s1. Inr (s1\<lparr>outbound := outbound s1 @ [DiagnosticsRefresh]\<rparr>))"

definition onDidClose :: "session \<Rightarrow> TextDocument \<Rightarrow> session" where
  "onDidClose s document = s\<lparr>documentSettings := (documentSettings s)(uri document := None)\<rparr>"

definition getDocumentSettings ::
  "session \<Rightarrow> jsstring \<Rightarrow> StrudelSettings thenable \<times> session" where
  "getDocumentSettings s resource =
     (if \<not> hasConfigurationCapability s then (Resolved (globalSettings s), s)
      else case documentSettings s resource of
             Some result \<Rightarrow> (Pending result, s)
           | None \<Rightarrow>
               (let result = length (outbound s) in
                (Pending result,
                 s\<lparr>outbound := outbound s @
                      [ConfigurationRequest resource (utf16 ''strudelLanguageServer'')],
                   documentSettings := (documentSettings s)(resource \<mapsto> result)\<rparr>)))"

definition onDidChangeWatchedFiles :: "session \<Rightarrow> session" where
  "onDidChangeWatchedFiles s =
     s\<lparr>outbound := outbound s @ [ConsoleLog (utf16 ''We received a file change event'')]\<rparr>"

subsection \<open>The document manager\<close>

text \<open>
  Modelled from the spec: the Document Store, that is the document manager
  \<open>TextDocuments\<close>, which the repository imports and does not define. A document is
  created by the open notification, replaced by a change notification and destroyed by
  the close notification; the close of an open document runs the handler \<open>onDidClose\<close>
  of the server.
\<close>

text \<open>
  Modelled from the spec: the open notification creates the document under its URI.
\<close>

definition didOpen :: "session \<Rightarrow> TextDocument \<Rightarrow> session" where
  "didOpen s doc = s\<lparr>documents := (documents s)(uri doc \<mapsto> doc)\<rparr>"

text \<open>
  Modelled from the spec: a change notification replaces the version and the text of an
  open document.
\<close>

definition didChangeContent :: "session \<Rightarrow> jsstring \<Rightarrow> int \<Rightarrow> jsstring \<Rightarrow> session" where
  "didChangeContent s u v newText =
     (case documents s u of
        None \<Rightarrow> s
      | Some doc \<Rightarrow> s\<lparr>documents := (documents s)(u \<mapsto> doc\<lparr>version := v, content := newText\<rparr>)\<rparr>)"

text \<open>
  Modelled from the spec: the close notification destroys an open document and then runs
  \<open>onDidClose\<close>.
\<close>

definition didClose :: "session \<Rightarrow> jsstring \<Rightarrow> session" where
  "didClose s u =
     (case documents s u of
        None \<Rightarrow> s
      | Some doc \<Rightarrow> onDidClose (s\<lparr>documents := (documents s)(u := None)\<rparr>) doc)"

subsection \<open>Diagnostics\<close>

text \<open>
  \<open>await\<close>: a promise made by \<open>Promise.resolve\<close> gives its value; the outcome of a
  pending pull is the answer of the peer, \<open>env\<close>, which may be a failure. The embedding
  runs a handler to its end once the answer is there; it has no events between the
  request and the answer.
\<close>

definition await :: "(nat \<Rightarrow> error + 'a) \<Rightarrow> 'a thenable \<Rightarrow> error + 'a" where
  "await env p = (case p of Resolved v \<Rightarrow> Inr v | Pending h \<Rightarrow> env h)"

definition validateTextDocument ::
  "session \<Rightarrow> (nat \<Rightarrow> error + StrudelSettings) \<Rightarrow> TextDocument
   \<Rightarrow> (error + Diagnostic list) \<times> session" where
  "validateTextDocument s env textDocument =
     (let (p, s1) = getDocumentSettings s (uri textDocument) in
      case await env p of
        Inl e \<Rightarrow> (Inl e, s1)
      | Inr settings \<Rightarrow>
          (Inr (validateBody (hasDiagnosticRelatedInformationCapability s1)
                  textDocument settings), s1))"

datatype DocumentDiagnosticReportKind = FullReport | UnchangedReport

record DocumentDiagnosticReport =
  kind :: DocumentDiagnosticReportKind
  items :: "Diagnostic list"

definition diagnostics_on ::
  "session \<Rightarrow> (nat \<Rightarrow> error + StrudelSettings) \<Rightarrow> jsstring
   \<Rightarrow> (error + DocumentDiagnosticReport) \<times> session" where
  "diagnostics_on s env u =
     (case documents s u of
        Some doc \<Rightarrow>
          (case validateTextDocument s env doc of
             (Inl e, s1) \<Rightarrow> (Inl e, s1)
           | (Inr ds, s1) \<Rightarrow> (Inr \<lparr>kind = FullReport, items = ds\<rparr>, s1))
      | None \<Rightarrow> (Inr \<lparr>kind = FullReport, items = []\<rparr>, s))"

subsection \<open>Completion\<close>

datatype CompletionItemKind = Text | Method | Function

record CompletionItem =
  label :: jsstring
  item_kind :: "CompletionItemKind option"
  data :: jsval
  detail :: "jsstring option"
  documentation :: "jsstring option"

definition onCompletion :: "CompletionItem list" where
  "onCompletion =
     [\<lparr>label = utf16 ''TypeScript'', item_kind = Some Text, data = JNum 1,
       detail = None, documentation = None\<rparr>,
      \<lparr>label = utf16 ''JavaScript'', item_kind = Some Text, data = JNum 2,
       detail = None, documentation = None\<rparr>]"

definition onCompletionResolve :: "'a CompletionItem_scheme \<Rightarrow> 'a CompletionItem_scheme" where
  "onCompletionResolve item =
     (if data item = JNum 1 then
        item\<lparr>detail := Some (utf16 ''TypeScript details''),
             documentation := Some (utf16 ''TypeScript documentation'')\<rparr>
      else if data item = JNum 2 then
        item\<lparr>detail := Some (utf16 ''JavaScript details''),
             documentation := Some (utf16 ''JavaScript documentation'')\<rparr>
      else item)"

subsection \<open>Sessions\<close>

text \<open>
  The events of a session after its initialization, and the states a session can reach:
  \<open>initialize\<close> comes first and once, then the other events in any order. A
  notification whose handler throws leaves the session as it was.
\<close>

datatype event =
    Initialized
  | DidChangeConfiguration DidChangeConfigurationParams
  | DidOpen TextDocument
  | DidChangeContent jsstring int jsstring
  | DidClose jsstring
  | DiagnosticsPull jsstring
  | DidChangeWatchedFiles
  | Completion
  | CompletionResolve CompletionItem

fun step :: "(nat \<Rightarrow> error + StrudelSettings) \<Rightarrow> session \<Rightarrow> event \<Rightarrow> session" where
  "step env s Initialized = onInitialized s"
| "step env s (DidChangeConfiguration change) =
     (case onDidChangeConfiguration s change of Inl e \<Rightarrow> s | Inr s1 \<Rightarrow> s1)"
| "step env s (DidOpen doc) = didOpen s doc"
| "step env s (DidChangeContent u v newText) = didChangeContent s u v newText"
| "step env s (DidClose u) = didClose s u"
| "step env s (DiagnosticsPull u) = snd (diagnostics_on s env u)"
| "step env s DidChangeWatchedFiles = onDidChangeWatchedFiles s"
| "step env s Completion = s"
| "step env s (CompletionResolve item) = s"

inductive reachable :: "session \<Rightarrow> bool" where
  reachable_init: "onInitialize initialSession params = Inr (r, s) \<Longrightarrow> reachable s"
| reachable_step: "reachable s \<Longrightarrow> reachable (step env s ev)"

section \<open>The matches of a text, as the specification counts them\<close>

text \<open>
  A match is a run of two or more consecutive capitals that forms a whole word: no word
  character stands before its first or after its last character. \<open>specMatches\<close> lists
  the matches of a text by start and end offset, from left to right, and \<open>matchCount\<close>
  counts them. These definitions follow the words of the specification and do not scan.
\<close>

definition wholeWordUpperRun :: "jsstring \<Rightarrow> nat \<Rightarrow> nat \<Rightarrow> bool" where
  "wholeWordUpperRun text i n =
     (2 \<le> n \<and> i + n \<le> length text \<and>
      list_all isUpperAZ (substring text i (i + n)) \<and>
      (i = 0 \<or> \<not> isWordChar (text ! (i - 1))) \<and>
      (i + n = length text \<or> \<not> isWordChar (text ! (i + n))))"

definition specMatchesAt :: "jsstring \<Rightarrow> nat \<Rightarrow> (nat \<times> nat) list" where
  "specMatchesAt text i =
     map (\<lambda>n. (i, i + n)) (filter (wholeWordUpperRun text i) [2..<Suc (length text - i)])"

definition specMatchesFrom :: "jsstring \<Rightarrow> nat \<Rightarrow> (nat \<times> nat) list" where
  "specMatchesFrom text k = concat (map (specMatchesAt text) [k..<length text])"

definition specMatches :: "jsstring \<Rightarrow> (nat \<times> nat) list" where
  "specMatches text = specMatchesFrom text 0"

definition matchCount :: "jsstring \<Rightarrow> nat" where
  "matchCount text = length (specMatches text)"

text \<open>The offsets that the range of a finding stands for in its document.\<close>

definition decodeRange :: "TextDocument \<Rightarrow> Diagnostic \<Rightarrow> nat \<times> nat" where
  "decodeRange doc d =
     (offsetAt doc (range_start (range_of d)), offsetAt doc (range_end (range_of d)))"

section \<open>Notions used to state the properties\<close>

text \<open>
  \<open>field v p\<close> is the value of a property read that cannot throw; \<open>negotiatedFlags\<close>
  reads the three capability flags off the outcome of \<open>initialize\<close>; \<open>run\<close> lets a
  session handle a list of events.
\<close>

definition field :: "jsval \<Rightarrow> string \<Rightarrow> jsval" where
  "field v p = (case getProp v p of Inl e \<Rightarrow> JUndefined | Inr x \<Rightarrow> x)"

definition negotiatedFlags ::
  "error + (InitializeResult \<times> session) \<Rightarrow> error + (bool \<times> bool \<times> bool)" where
  "negotiatedFlags r =
     (case r of
        Inl e \<Rightarrow> Inl e
      | Inr (res, s) \<Rightarrow>
          Inr (hasConfigurationCapability s, hasWorkspaceFolderCapability s,
               hasDiagnosticRelatedInformationCapability s))"

definition isConfigurationChange :: "event \<Rightarrow> bool" where
  "isConfigurationChange ev = (case ev of DidChangeConfiguration c \<Rightarrow> True | _ \<Rightarrow> False)"

definition run :: "(nat \<Rightarrow> error + StrudelSettings) \<Rightarrow> session \<Rightarrow> event list \<Rightarrow> session" where
  "run env s evs = foldl (step env) s evs"

text \<open>
  \<open>invalidates u ev\<close>: the event takes the entry of \<open>u\<close> out of the settings cache (a
  configuration change, or the close of \<open>u\<close>). \<open>pullsFor u s\<close> counts the configuration
  requests for \<open>u\<close> among the messages sent. \<open>wellKeyed\<close>: the document manager files every
  document under its own URI.
\<close>

definition invalidates :: "jsstring \<Rightarrow> event \<Rightarrow> bool" where
  "invalidates u ev =
     (case ev of DidChangeConfiguration c \<Rightarrow> True | DidClose u' \<Rightarrow> u' = u | _ \<Rightarrow> False)"

definition pullsFor :: "jsstring \<Rightarrow> session \<Rightarrow> nat" where
  "pullsFor u s =
     length (filter (\<lambda>m. m = ConfigurationRequest u (utf16 ''strudelLanguageServer''))
               (outbound s))"

definition wellKeyed :: "session \<Rightarrow> bool" where
  "wellKeyed s = (\<forall>k d. documents s k = Some d \<longrightarrow> uri d = k)"

section \<open>Facts about the pattern\<close>

lemma tryLen_bounds: "tryLen text i k = Some e \<Longrightarrow> i + 2 \<le> e \<and> e \<le> i + k"
  by (induction k) (auto split: if_splits)

lemma upperRun_le: "i + upperRun text i \<le> max i (length text)"
proof -
  have "upperRun text i \<le> length (drop i text)"
    unfolding upperRun_def by (rule length_takeWhile_le)
  then show ?thesis by simp
qed

lemma matchAt_bounds:
  assumes "matchAt text i = Some e"
  shows "i + 2 \<le> e \<and> e \<le> length text"
proof -
  from assms have t: "tryLen text i (upperRun text i) = Some e"
    by (simp add: matchAt_def split: if_splits)
  from tryLen_bounds [OF t] have b: "i + 2 \<le> e" "e \<le> i + upperRun text i" by simp_all
  with upperRun_le [of i "text"] show ?thesis by (simp add: max_def split: if_splits)
qed

lemma exec_bounds:
  "exec tx k = Some (s, e) \<Longrightarrow> k \<le> s \<and> s + 2 \<le> e \<and> e \<le> length tx"
proof (induction tx k rule: exec.induct)
  case (1 tx lastIndex)
  show ?case
  proof (cases "matchAt tx lastIndex")
    case None
    with "1.prems" have le: "\<not> length tx < lastIndex"
      and r: "exec tx (Suc lastIndex) = Some (s, e)"
      by (simp_all add: exec.simps [of tx lastIndex] split: if_splits)
    from "1.IH" [OF le None r] show ?thesis by simp
  next
    case (Some e')
    with "1.prems" have "s = lastIndex" "e = e'"
      by (simp_all add: exec.simps [of tx lastIndex] split: if_splits)
    with matchAt_bounds [OF Some] show ?thesis by simp
  qed
qed

lemma upper_word: "isUpperAZ c \<Longrightarrow> isWordChar c"
  by (simp add: isWordChar_def)

lemma upperRun_nth:
  assumes "j < upperRun tx i"
  shows "i + j < length tx \<and> isUpperAZ (tx ! (i + j))"
proof -
  let ?r = "takeWhile isUpperAZ (drop i tx)"
  from assms have j: "j < length ?r" by (simp add: upperRun_def)
  have "length ?r \<le> length (drop i tx)" by (rule length_takeWhile_le)
  with j have b: "i + j < length tx" by simp
  from j have "?r ! j \<in> set ?r" by simp
  then have "isUpperAZ (?r ! j)" by (blast dest: set_takeWhileD)
  with j have "isUpperAZ (drop i tx ! j)" by (simp add: takeWhile_nth)
  with b show ?thesis by simp
qed

lemma upperRun_stop:
  assumes "i + upperRun tx i < length tx"
  shows "\<not> isUpperAZ (tx ! (i + upperRun tx i))"
proof -
  from assms have "length (takeWhile isUpperAZ (drop i tx)) < length (drop i tx)"
    by (simp add: upperRun_def)
  then have "\<not> isUpperAZ (drop i tx ! length (takeWhile isUpperAZ (drop i tx)))"
    by (rule nth_length_takeWhile)
  with assms show ?thesis by (simp add: upperRun_def)
qed

lemma upperRun_unique:
  assumes le: "i + n \<le> length tx"
    and up: "\<And>j. j < n \<Longrightarrow> isUpperAZ (tx ! (i + j))"
    and stop: "i + n = length tx \<or> \<not> isUpperAZ (tx ! (i + n))"
  shows "upperRun tx i = n"
proof (rule ccontr)
  assume ne: "upperRun tx i \<noteq> n"
  show False
  proof (cases "upperRun tx i < n")
    case True
    with le have "i + upperRun tx i < length tx" by simp
    from upperRun_stop [OF this] up [OF True] show False by simp
  next
    case False
    with ne have "n < upperRun tx i" by simp
    from upperRun_nth [OF this] stop show False by auto
  qed
qed

lemma inner_no_boundary:
  assumes "0 < k" and "k < upperRun tx i"
  shows "\<not> wordBoundary tx (i + k)"
proof -
  from assms have "k - 1 < upperRun tx i" by simp
  from upperRun_nth [OF this] assms(1)
  have a: "i + k - 1 < length tx" "isWordChar (tx ! (i + k - 1))"
    by (simp_all add: upper_word)
  from upperRun_nth [OF assms(2)]
  have b: "i + k < length tx" "isWordChar (tx ! (i + k))"
    by (simp_all add: upper_word)
  from a b assms(1) show ?thesis
    by (simp add: wordBoundary_def isWordCharAt_def Let_def)
qed

lemma end_boundary:
  assumes "0 < upperRun tx i"
  shows "wordBoundary tx (i + upperRun tx i) \<longleftrightarrow>
         (i + upperRun tx i = length tx \<or> \<not> isWordChar (tx ! (i + upperRun tx i)))"
proof -
  from assms have "upperRun tx i - 1 < upperRun tx i" by simp
  from upperRun_nth [OF this] assms
  have a: "i + upperRun tx i - 1 < length tx" "isWordChar (tx ! (i + upperRun tx i - 1))"
    by (simp_all add: upper_word)
  then have "i + upperRun tx i \<le> length tx" by simp
  with a assms show ?thesis
    by (auto simp add: wordBoundary_def isWordCharAt_def Let_def)
qed

lemma start_boundary:
  assumes "0 < upperRun tx i"
  shows "wordBoundary tx i \<longleftrightarrow> (i = 0 \<or> \<not> isWordChar (tx ! (i - 1)))"
proof -
  from upperRun_nth [OF assms] have "i < length tx" "isWordChar (tx ! i)"
    by (simp_all add: upper_word)
  then show ?thesis
    by (auto simp add: wordBoundary_def isWordCharAt_def Let_def)
qed

lemma tryLen_top: "2 \<le> k \<Longrightarrow> wordBoundary tx (i + k) \<Longrightarrow> tryLen tx i k = Some (i + k)"
  by (cases k) simp_all

lemma tryLen_Some:
  "tryLen tx i k = Some e \<Longrightarrow> \<exists>k'. 2 \<le> k' \<and> k' \<le> k \<and> e = i + k' \<and> wordBoundary tx (i + k')"
proof (induction k)
  case 0
  then show ?case by simp
next
  case (Suc k)
  show ?case
  proof (cases "wordBoundary tx (i + Suc k)")
    case True
    with Suc.prems show ?thesis by (auto split: if_splits)
  next
    case False
    with Suc.prems have "tryLen tx i k = Some e" by (simp split: if_splits)
    from Suc.IH [OF this] show ?thesis by (metis le_Suc_eq)
  qed
qed

lemma matchAt_iff:
  "matchAt tx i = Some e \<longleftrightarrow>
   wordBoundary tx i \<and> 2 \<le> upperRun tx i \<and> wordBoundary tx (i + upperRun tx i) \<and>
   e = i + upperRun tx i"
proof
  assume m: "matchAt tx i = Some e"
  then have wb: "wordBoundary tx i" and t: "tryLen tx i (upperRun tx i) = Some e"
    by (simp_all add: matchAt_def split: if_splits)
  from tryLen_Some [OF t] obtain k where k: "2 \<le> k" "k \<le> upperRun tx i" "e = i + k"
    "wordBoundary tx (i + k)" by blast
  have "k = upperRun tx i"
  proof (rule ccontr)
    assume "k \<noteq> upperRun tx i"
    with k have "0 < k" "k < upperRun tx i" by simp_all
    from inner_no_boundary [OF this] k(4) show False by simp
  qed
  with wb k show "wordBoundary tx i \<and> 2 \<le> upperRun tx i \<and>
    wordBoundary tx (i + upperRun tx i) \<and> e = i + upperRun tx i" by simp
next
  assume "wordBoundary tx i \<and> 2 \<le> upperRun tx i \<and> wordBoundary tx (i + upperRun tx i) \<and>
    e = i + upperRun tx i"
  then show "matchAt tx i = Some e" by (simp add: matchAt_def tryLen_top)
qed

lemma wholeWord_matchAt:
  "wholeWordUpperRun tx i n \<longleftrightarrow> matchAt tx i = Some (i + n)"
proof
  assume w: "wholeWordUpperRun tx i n"
  then have n: "2 \<le> n" and le: "i + n \<le> length tx"
    and all: "list_all isUpperAZ (take n (drop i tx))"
    and st: "i = 0 \<or> \<not> isWordChar (tx ! (i - 1))"
    and en: "i + n = length tx \<or> \<not> isWordChar (tx ! (i + n))"
    by (simp_all add: wholeWordUpperRun_def substring_def)
  have up: "isUpperAZ (tx ! (i + j))" if "j < n" for j
  proof -
    from that le have "j < length (take n (drop i tx))" by simp
    with all have "isUpperAZ (take n (drop i tx) ! j)" by (simp add: list_all_length)
    with that le show ?thesis by simp
  qed
  from en have "i + n = length tx \<or> \<not> isUpperAZ (tx ! (i + n))"
    using upper_word by blast
  with le up have r: "upperRun tx i = n" by (intro upperRun_unique) simp_all
  with n have pos: "0 < upperRun tx i" by simp
  from start_boundary [OF pos] st have "wordBoundary tx i" by simp
  moreover from end_boundary [OF pos] en r have "wordBoundary tx (i + upperRun tx i)" by simp
  ultimately show "matchAt tx i = Some (i + n)" using r n by (simp add: matchAt_iff)
next
  assume "matchAt tx i = Some (i + n)"
  then have wb: "wordBoundary tx i" and n: "2 \<le> upperRun tx i"
    and we: "wordBoundary tx (i + upperRun tx i)" and r: "n = upperRun tx i"
    by (simp_all add: matchAt_iff)
  from n have pos: "0 < upperRun tx i" by simp
  from n have "upperRun tx i - 1 < upperRun tx i" by simp
  from upperRun_nth [OF this] n have le: "i + upperRun tx i \<le> length tx" by arith
  have "list_all isUpperAZ (take (upperRun tx i) (drop i tx))"
    using le by (simp add: list_all_length upperRun_nth)
  with wb we n le start_boundary [OF pos] end_boundary [OF pos] r
  show "wholeWordUpperRun tx i n" by (simp add: wholeWordUpperRun_def substring_def)
qed

lemma filter_eq_upt: "a \<le> x \<Longrightarrow> x < b \<Longrightarrow> filter (\<lambda>n. y + n = y + x) [a..<b] = [x]"
proof (induction b)
  case 0
  then show ?case by simp
next
  case (Suc b)
  show ?case
  proof (cases "x = b")
    case True
    have "filter (\<lambda>n. n = b) [a..<b] = []" by (simp add: filter_empty_conv)
    with True Suc.prems show ?thesis by simp
  next
    case False
    with Suc show ?thesis by simp
  qed
qed

lemma specMatchesAt_matchAt:
  "specMatchesAt tx i = (case matchAt tx i of None \<Rightarrow> [] | Some e \<Rightarrow> [(i, e)])"
proof (cases "matchAt tx i")
  case None
  then show ?thesis by (simp add: specMatchesAt_def wholeWord_matchAt)
next
  case (Some e)
  define n where "n = e - i"
  from matchAt_bounds [OF Some] have n: "e = i + n" "2 \<le> n" "n < Suc (length tx - i)"
    unfolding n_def by arith+
  have "wholeWordUpperRun tx i = (\<lambda>m. i + m = i + n)"
    using Some n(1) by (intro ext) (auto simp add: wholeWord_matchAt)
  then have "filter (wholeWordUpperRun tx i) [2..<Suc (length tx - i)] =
        filter (\<lambda>m. i + m = i + n) [2..<Suc (length tx - i)]"
    by (simp only:)
  also have "\<dots> = [n]" using n(2,3) by (rule filter_eq_upt)
  finally show ?thesis using Some n(1) by (simp add: specMatchesAt_def)
qed


lemma exec_None:
  "exec tx k = None \<Longrightarrow> k \<le> i \<Longrightarrow> i \<le> length tx \<Longrightarrow> matchAt tx i = None"
proof (induction tx k rule: exec.induct)
  case (1 tx lastIndex)
  from "1.prems" have le: "\<not> length tx < lastIndex" by simp
  with "1.prems"(1) have m: "matchAt tx lastIndex = None"
    and r: "exec tx (Suc lastIndex) = None"
    by (simp_all add: exec.simps [of tx lastIndex] split: option.splits)
  show ?case
  proof (cases "i = lastIndex")
    case True
    with m show ?thesis by simp
  next
    case False
    with "1.prems" have "Suc lastIndex \<le> i" by simp
    from "1.IH" [OF le m r this "1.prems"(3)] show ?thesis .
  qed
qed

lemma exec_Some:
  "exec tx k = Some (s, e) \<Longrightarrow>
   matchAt tx s = Some e \<and> (\<forall>i. k \<le> i \<and> i < s \<longrightarrow> matchAt tx i = None)"
proof (induction tx k rule: exec.induct)
  case (1 tx lastIndex)
  show ?case
  proof (cases "matchAt tx lastIndex")
    case None
    with "1.prems" have le: "\<not> length tx < lastIndex"
      and r: "exec tx (Suc lastIndex) = Some (s, e)"
      by (simp_all add: exec.simps [of tx lastIndex] split: if_splits)
    from "1.IH" [OF le None r] None show ?thesis
      by (metis Suc_leI le_neq_implies_less)
  next
    case (Some e')
    with "1.prems" have "s = lastIndex" "e = e'"
      by (simp_all add: exec.simps [of tx lastIndex] split: if_splits)
    with Some show ?thesis by auto
  qed
qed

lemma specMatchesFrom_skip:
  assumes "\<And>i. a \<le> i \<Longrightarrow> i < b \<Longrightarrow> matchAt tx i = None"
    and "a \<le> b" and "b \<le> length tx"
  shows "specMatchesFrom tx a = specMatchesFrom tx b"
proof -
  from assms(2,3) have "[a..<length tx] = [a..<b] @ [b..<length tx]"
    by (metis le_Suc_ex upt_add_eq_append)
  moreover have "concat (map (specMatchesAt tx) [a..<b]) = []"
    using assms(1) by (simp add: specMatchesAt_matchAt)
  ultimately show ?thesis by (simp add: specMatchesFrom_def)
qed

lemma specMatchesFrom_past: "length tx \<le> k \<Longrightarrow> specMatchesFrom tx k = []"
  by (simp add: specMatchesFrom_def)

lemma specMatchesFrom_match:
  assumes "matchAt tx s = Some e"
  shows "specMatchesFrom tx s = (s, e) # specMatchesFrom tx e"
proof -
  from matchAt_bounds [OF assms] have b: "s + 2 \<le> e" "e \<le> length tx" by simp_all
  then have "[s..<length tx] = s # [Suc s..<length tx]" by (simp add: upt_conv_Cons)
  then have 1: "specMatchesFrom tx s = (s, e) # specMatchesFrom tx (Suc s)"
    using assms by (simp add: specMatchesFrom_def specMatchesAt_matchAt)
  from assms have r: "e = s + upperRun tx s" by (simp add: matchAt_iff)
  have "matchAt tx i = None" if "Suc s \<le> i" "i < e" for i
  proof -
    from that r have "0 < i - s" "i - s < upperRun tx s" by simp_all
    from inner_no_boundary [OF this] that have "\<not> wordBoundary tx i" by simp
    then show ?thesis by (simp add: matchAt_def)
  qed
  then have "specMatchesFrom tx (Suc s) = specMatchesFrom tx e"
    using b by (intro specMatchesFrom_skip) simp_all
  with 1 show ?thesis by simp
qed

lemma specMatchesFrom_exec_None:
  assumes "exec tx k = None"
  shows "specMatchesFrom tx k = []"
proof -
  have "specMatchesAt tx i = []" if "k \<le> i" "i < length tx" for i
    using exec_None [OF assms, of i] that by (simp add: specMatchesAt_matchAt)
  then show ?thesis by (simp add: specMatchesFrom_def)
qed

lemma specMatchesFrom_exec_Some:
  assumes "exec tx k = Some (s, e)"
  shows "specMatchesFrom tx k = (s, e) # specMatchesFrom tx e"
proof -
  from exec_Some [OF assms] have m: "matchAt tx s = Some e"
    and n: "\<And>i. k \<le> i \<Longrightarrow> i < s \<Longrightarrow> matchAt tx i = None" by simp_all
  from exec_bounds [OF assms] have "k \<le> s" "s \<le> length tx" by simp_all
  with n have "specMatchesFrom tx k = specMatchesFrom tx s"
    by (intro specMatchesFrom_skip) simp_all
  with specMatchesFrom_match [OF m] show ?thesis by simp
qed

lemma validateLoop_spec:
  "validateLoop rel doc st k n acc =
     acc @ map (\<lambda>m. errorDiagnostic rel doc (fst m) (snd m))
             (take (nat (maxErrorCount st - int n)) (specMatchesFrom (content doc) k))"
proof (induction rel doc st k n acc rule: validateLoop.induct)
  case (1 rel doc st lastIndex errors diagnostics)
  show ?case
  proof (cases "exec (content doc) lastIndex")
    case None
    then show ?thesis
      by (simp add: validateLoop.simps [of rel doc st lastIndex] specMatchesFrom_exec_None)
  next
    case (Some m)
    then have e: "exec (content doc) lastIndex = Some (fst m, snd m)" by simp
    note sp = specMatchesFrom_exec_Some [OF e]
    show ?thesis
    proof (cases "int errors < maxErrorCount st")
      case True
      then have "nat (maxErrorCount st - int errors) =
                 Suc (nat (maxErrorCount st - int (Suc errors)))" by simp
      with "1.IH" [OF Some True] Some True sp show ?thesis
        by (simp add: validateLoop.simps [of rel doc st lastIndex])
    next
      case False
      with Some show ?thesis
        by (simp add: validateLoop.simps [of rel doc st lastIndex])
    qed
  qed
qed

section \<open>Facts about the validator\<close>

lemma offsetAt_positionAt:
  assumes "off \<le> length (content doc)"
  shows "offsetAt doc (positionAt doc off) = off"
proof -
  define ls where "ls = getLineOffsets doc"
  define low where "low = length (takeWhile (\<lambda>lo. lo \<le> off) ls)"
  have hd: "ls = 0 # tl ls" by (simp add: ls_def getLineOffsets_def)
  then have "takeWhile (\<lambda>lo. lo \<le> off) ls = 0 # takeWhile (\<lambda>lo. lo \<le> off) (tl ls)"
    by (metis le0 takeWhile.simps(2))
  then have pos: "0 < low" by (simp add: low_def)
  have le: "low \<le> length ls" unfolding low_def by (rule length_takeWhile_le)
  have "takeWhile (\<lambda>lo. lo \<le> off) ls ! (low - 1) \<in> set (takeWhile (\<lambda>lo. lo \<le> off) ls)"
    using pos by (simp add: low_def)
  then have "takeWhile (\<lambda>lo. lo \<le> off) ls ! (low - 1) \<le> off"
    by (blast dest: set_takeWhileD)
  then have before: "ls ! (low - 1) \<le> off"
    using pos by (simp add: low_def takeWhile_nth)
  have after: "off < ls ! low" if "low < length ls"
    using nth_length_takeWhile [of "\<lambda>lo. lo \<le> off" ls] that by (simp add: low_def)
  have p: "positionAt doc off = \<lparr>line = low - 1, character = off - ls ! (low - 1)\<rparr>"
    using assms by (simp add: positionAt_def Let_def ls_def low_def min_def)
  from pos le have inside: "\<not> length ls \<le> low - 1" by simp
  show ?thesis
  proof (cases "low < length ls")
    case True
    with after before pos inside show ?thesis
      unfolding p by (simp add: offsetAt_def Let_def ls_def [symmetric] min_def)
  next
    case False
    with before pos inside assms show ?thesis
      unfolding p by (simp add: offsetAt_def Let_def ls_def [symmetric] min_def)
  qed
qed

lemma specMatchesAt_elem:
  "m \<in> set (specMatchesAt tx i) \<Longrightarrow>
   fst m = i \<and> wholeWordUpperRun tx (fst m) (snd m - fst m) \<and>
   fst m + 2 \<le> snd m \<and> snd m \<le> length tx"
  by (auto simp add: specMatchesAt_def wholeWordUpperRun_def)

lemma specMatchesFrom_elem:
  "m \<in> set (specMatchesFrom tx k) \<Longrightarrow>
   k \<le> fst m \<and> wholeWordUpperRun tx (fst m) (snd m - fst m) \<and>
   fst m + 2 \<le> snd m \<and> snd m \<le> length tx"
  by (auto simp add: specMatchesFrom_def dest: specMatchesAt_elem)

lemma specMatchesFrom_sorted:
  "sorted_wrt (\<lambda>a b. snd a \<le> fst b) (specMatchesFrom tx k)"
proof (induction "length tx - k" arbitrary: k rule: less_induct)
  case less
  show ?case
  proof (cases "length tx \<le> k")
    case True
    then show ?thesis by (simp add: specMatchesFrom_past)
  next
    case False
    show ?thesis
    proof (cases "matchAt tx k")
      case None
      have "matchAt tx i = None" if "k \<le> i" "i < Suc k" for i
      proof -
        from that have "i = k" by simp
        with None show ?thesis by simp
      qed
      then have "specMatchesFrom tx k = specMatchesFrom tx (Suc k)"
        using False by (intro specMatchesFrom_skip) simp_all
      moreover from False have "length tx - Suc k < length tx - k" by simp
      ultimately show ?thesis using less by simp
    next
      case (Some e)
      from matchAt_bounds [OF Some] have "length tx - e < length tx - k" by arith
      then have "sorted_wrt (\<lambda>a b. snd a \<le> fst b) (specMatchesFrom tx e)" by (rule less)
      moreover have "\<forall>m \<in> set (specMatchesFrom tx e). e \<le> fst m"
        by (blast dest: specMatchesFrom_elem)
      ultimately show ?thesis by (simp add: specMatchesFrom_match [OF Some])
    qed
  qed
qed

lemma decodeRange_errorDiagnostic:
  "s \<le> length (content doc) \<Longrightarrow> e \<le> length (content doc) \<Longrightarrow>
   decodeRange doc (errorDiagnostic rel doc s e) = (s, e)"
  by (simp add: decodeRange_def errorDiagnostic_def Let_def offsetAt_positionAt)

lemma validateBody_spec:
  "validateBody rel doc st =
     map (\<lambda>m. errorDiagnostic rel doc (fst m) (snd m))
       (take (nat (maxErrorCount st)) (specMatches (content doc)))"
  by (simp add: validateBody_def validateLoop_spec specMatches_def)

lemma decode_matches:
  "\<forall>m \<in> set ms. snd m \<le> length (content doc) \<and> fst m \<le> snd m \<Longrightarrow>
   map (decodeRange doc) (map (\<lambda>m. errorDiagnostic rel doc (fst m) (snd m)) ms) = ms"
  by (induction ms) (simp_all add: decodeRange_errorDiagnostic)

lemma validateBody_elem:
  "d \<in> set (validateBody rel doc st) \<Longrightarrow> \<exists>s e. d = errorDiagnostic rel doc s e"
  by (auto simp add: validateBody_spec)

section \<open>Facts about the session\<close>

lemma getDocumentSettings_flags:
  "hasConfigurationCapability (snd (getDocumentSettings s u)) = hasConfigurationCapability s"
  "globalSettings (snd (getDocumentSettings s u)) = globalSettings s"
  "hasDiagnosticRelatedInformationCapability (snd (getDocumentSettings s u)) =
     hasDiagnosticRelatedInformationCapability s"
  by (simp_all add: getDocumentSettings_def Let_def split: option.splits)

lemma getDocumentSettings_rel:
  "getDocumentSettings s u = (p, s1) \<Longrightarrow>
   hasDiagnosticRelatedInformationCapability s1 = hasDiagnosticRelatedInformationCapability s"
  using getDocumentSettings_flags(3) [of s u] by simp

lemma getDocumentSettings_cache:
  "\<not> hasConfigurationCapability s \<Longrightarrow> snd (getDocumentSettings s u) = s"
  by (simp add: getDocumentSettings_def)

lemma diagnostics_on_state:
  "snd (diagnostics_on s env u) =
     (case documents s u of None \<Rightarrow> s | Some doc \<Rightarrow> snd (getDocumentSettings s (uri doc)))"
  by (simp add: diagnostics_on_def validateTextDocument_def
      split: option.splits prod.splits sum.splits)

lemma step_configuration:
  "step env s (DidChangeConfiguration change) =
     (if hasConfigurationCapability s
      then s\<lparr>documentSettings := Map.empty, outbound := outbound s @ [DiagnosticsRefresh]\<rparr>
      else case change_settings change of
             SettingsUndefined \<Rightarrow> s
           | SettingsNull \<Rightarrow> s
           | SettingsObject obj \<Rightarrow>
               s\<lparr>globalSettings :=
                    (case strudelLanguageServer obj of Some v \<Rightarrow> v | None \<Rightarrow> defaultSettings),
                 outbound := outbound s @ [DiagnosticsRefresh]\<rparr>)"
  by (simp add: onDidChangeConfiguration_def bind_def split: ConfigurationValue.splits)

lemma onDidChangeConfiguration_ok:
  "hasConfigurationCapability s \<or> (\<exists>obj. change_settings change = SettingsObject obj) \<Longrightarrow>
   onDidChangeConfiguration s change = Inr (step env s (DidChangeConfiguration change))"
  by (auto simp add: onDidChangeConfiguration_def bind_def)

lemma onDidChangeConfiguration_throws:
  "\<not> hasConfigurationCapability s \<Longrightarrow>
   change_settings change = SettingsUndefined \<or> change_settings change = SettingsNull \<Longrightarrow>
   onDidChangeConfiguration s change = Inl TypeError \<and>
   step env s (DidChangeConfiguration change) = s"
  by (auto simp add: onDidChangeConfiguration_def bind_def)

declare step.simps(2) [simp del]

lemma step_flag:
  "hasConfigurationCapability (step env s ev) = hasConfigurationCapability s"
  by (cases ev)
     (simp_all add: onInitialized_def step_configuration didOpen_def
        didChangeContent_def didClose_def onDidClose_def onDidChangeWatchedFiles_def
        diagnostics_on_state getDocumentSettings_flags Let_def split: option.splits ConfigurationValue.splits)

lemma step_globalSettings:
  "\<not> isConfigurationChange ev \<or> hasConfigurationCapability s \<Longrightarrow>
   globalSettings (step env s ev) = globalSettings s"
  by (cases ev)
     (auto simp add: onInitialized_def step_configuration didOpen_def
        didChangeContent_def didClose_def onDidClose_def onDidChangeWatchedFiles_def
        diagnostics_on_state getDocumentSettings_flags Let_def isConfigurationChange_def
        split: option.splits ConfigurationValue.splits)

lemma step_cache_empty:
  "\<not> hasConfigurationCapability s \<Longrightarrow> documentSettings s = Map.empty \<Longrightarrow>
   documentSettings (step env s ev) = Map.empty"
  by (cases ev)
     (auto simp add: onInitialized_def step_configuration didOpen_def
        didChangeContent_def didClose_def onDidClose_def onDidChangeWatchedFiles_def
        diagnostics_on_state getDocumentSettings_cache Let_def
        split: option.splits ConfigurationValue.splits)

lemma run_flag: "hasConfigurationCapability (run env s evs) = hasConfigurationCapability s"
  unfolding run_def by (induction evs arbitrary: s) (simp_all add: step_flag)

lemma run_globalSettings:
  "list_all (\<lambda>ev. \<not> isConfigurationChange ev) evs \<Longrightarrow>
   globalSettings (run env s evs) = globalSettings s"
  unfolding run_def by (induction evs arbitrary: s) (simp_all add: step_globalSettings)

lemma onInitialize_cache:
  "onInitialize s params = Inr (r, s') \<Longrightarrow> documentSettings s' = documentSettings s"
  by (auto simp add: onInitialize_def bind_def andAlso_def Let_def split: sum.splits if_splits)

lemma reachable_cache_empty:
  "reachable s \<Longrightarrow> \<not> hasConfigurationCapability s \<Longrightarrow> documentSettings s = Map.empty"
proof (induction rule: reachable.induct)
  case (reachable_init params r s)
  from onInitialize_cache [OF reachable_init.hyps] show ?case by (simp add: initialSession_def)
next
  case (reachable_step s env ev)
  then show ?case by (simp add: step_flag step_cache_empty)
qed

lemma reachable_plain: "reachable initialSession"
  by (rule reachable_init [of "\<lparr>capabilities = JObj []\<rparr>"
       "\<lparr>textDocumentSync = Incremental, resolveProvider = True, interFileDependencies = False,
          workspaceDiagnostics = False, workspaceFoldersSupported = None\<rparr>"])
     (simp add: onInitialize_def bind_def andAlso_def initialSession_def)

lemma reachable_pull: "reachable (initialSession\<lparr>hasConfigurationCapability := True\<rparr>)"
  by (rule reachable_init
       [of "\<lparr>capabilities = JObj [(''workspace'', JObj [(''configuration'', JBool True)])]\<rparr>"
        "\<lparr>textDocumentSync = Incremental, resolveProvider = True, interFileDependencies = False,
          workspaceDiagnostics = False, workspaceFoldersSupported = None\<rparr>"])
     (simp add: onInitialize_def bind_def andAlso_def initialSession_def)

lemma getDocumentSettings_keeps:
  assumes "documentSettings s u = Some h"
  shows "documentSettings (snd (getDocumentSettings s u')) u = Some h \<and>
         pullsFor u (snd (getDocumentSettings s u')) = pullsFor u s"
  using assms by (auto simp add: getDocumentSettings_def pullsFor_def Let_def split: option.splits)

lemma step_wellKeyed: "wellKeyed s \<Longrightarrow> wellKeyed (step env s ev)"
proof (cases ev)
  case (DiagnosticsPull u')
  assume "wellKeyed s"
  moreover have "documents (snd (getDocumentSettings s x)) = documents s" for x
    by (simp add: getDocumentSettings_def Let_def split: option.splits)
  ultimately show ?thesis using DiagnosticsPull
    by (simp add: wellKeyed_def diagnostics_on_state split: option.splits)
qed (auto simp add: wellKeyed_def onInitialized_def step_configuration didOpen_def
      didChangeContent_def didClose_def onDidClose_def onDidChangeWatchedFiles_def Let_def
      split: option.splits ConfigurationValue.splits)

lemma run_wellKeyed: "wellKeyed s \<Longrightarrow> wellKeyed (run env s evs)"
  unfolding run_def by (induction evs arbitrary: s) (simp_all add: step_wellKeyed)

lemma reachable_wellKeyed: "reachable s \<Longrightarrow> wellKeyed s"
proof (induction rule: reachable.induct)
  case (reachable_init params r s)
  then have "documents s = documents initialSession"
    by (auto simp add: onInitialize_def bind_def andAlso_def Let_def split: sum.splits if_splits)
  then show ?case by (simp add: wellKeyed_def initialSession_def)
next
  case (reachable_step s env ev)
  then show ?case by (simp add: step_wellKeyed)
qed

lemma step_keeps:
  assumes "documentSettings s u = Some h" and "\<not> invalidates u ev" and "wellKeyed s"
  shows "documentSettings (step env s ev) u = Some h \<and> pullsFor u (step env s ev) = pullsFor u s"
proof (cases ev)
  case (DiagnosticsPull u')
  then show ?thesis
    using assms(1) getDocumentSettings_keeps [OF assms(1)]
    by (simp add: diagnostics_on_state split: option.splits)
next
  case (DidClose u')
  with assms show ?thesis
    by (auto simp add: invalidates_def didClose_def onDidClose_def pullsFor_def wellKeyed_def
        split: option.splits)
qed (use assms in \<open>simp_all add: invalidates_def onInitialized_def didOpen_def
      didChangeContent_def onDidChangeWatchedFiles_def pullsFor_def Let_def split: option.splits\<close>)

lemma run_keeps:
  "documentSettings s u = Some h \<Longrightarrow> list_all (\<lambda>ev. \<not> invalidates u ev) evs \<Longrightarrow>
   wellKeyed s \<Longrightarrow>
   documentSettings (run env s evs) u = Some h \<and> pullsFor u (run env s evs) = pullsFor u s"
proof (induction evs arbitrary: s)
  case Nil
  then show ?case by (simp add: run_def)
next
  case (Cons ev evs)
  from Cons.prems have a: "\<not> invalidates u ev" and b: "list_all (\<lambda>ev. \<not> invalidates u ev) evs"
    by simp_all
  from step_keeps [OF Cons.prems(1) a Cons.prems(3), of env]
  have c: "documentSettings (step env s ev) u = Some h"
    and d: "pullsFor u (step env s ev) = pullsFor u s" by simp_all
  from Cons.IH [OF c b step_wellKeyed [OF Cons.prems(3)]] d show ?case by (simp add: run_def)
qed


lemma first_lookup:
  assumes "hasConfigurationCapability s"
  shows "fst (getDocumentSettings s u) =
           Pending (case documentSettings s u of Some h \<Rightarrow> h | None \<Rightarrow> length (outbound s))"
    and "documentSettings (snd (getDocumentSettings s u)) u =
           Some (case documentSettings s u of Some h \<Rightarrow> h | None \<Rightarrow> length (outbound s))"
    and "documentSettings s u = None \<Longrightarrow>
           outbound (snd (getDocumentSettings s u)) =
             outbound s @ [ConfigurationRequest u (utf16 ''strudelLanguageServer'')]"
    and "documentSettings s u = None \<Longrightarrow>
           pullsFor u (snd (getDocumentSettings s u)) = Suc (pullsFor u s)"
    and "documents (snd (getDocumentSettings s u)) = documents s"
  using assms
  by (simp_all add: getDocumentSettings_def pullsFor_def Let_def split: option.splits)

lemma cached_lookup:
  "hasConfigurationCapability s \<Longrightarrow> documentSettings s u = Some h \<Longrightarrow>
   getDocumentSettings s u = (Pending h, s)"
  by (simp add: getDocumentSettings_def)

lemma getProp_field: "v \<noteq> JUndefined \<Longrightarrow> v \<noteq> JNull \<Longrightarrow> getProp v p = Inr (field v p)"
  by (cases v) (simp_all add: field_def)

lemma truthy_getProp: "truthy v \<Longrightarrow> getProp v p = Inr (field v p)"
  by (cases v) (simp_all add: field_def)

lemma andAlso_read:
  "andAlso w (bind (getProp w p) f) = (if truthy w then f (field w p) else Inr w)"
  by (simp add: andAlso_def bind_def truthy_getProp)

lemma andAlso_read_last:
  "andAlso w (getProp w p) = (if truthy w then Inr (field w p) else Inr w)"
  by (simp add: andAlso_def truthy_getProp)

lemma bind_Inr: "bind (Inr v) f = f v"
  by (simp add: bind_def)

lemma onInitialize_throws:
  "capabilities params = JUndefined \<or> capabilities params = JNull \<Longrightarrow>
   onInitialize s params = Inl TypeError"
  by (auto simp add: onInitialize_def bind_def)

lemma diagnostics_after_close:
  "diagnostics_on (didClose s u) env u =
     (Inr \<lparr>kind = FullReport, items = []\<rparr>, didClose s u)"
  by (simp add: diagnostics_on_def didClose_def onDidClose_def split: option.splits)

section \<open>The text \<open>let ABC = 1;\<close>\<close>

lemma exec_example:
  "exec (utf16 ''let ABC = 1;'') 0 = Some (4, 7)"
  "exec (utf16 ''let ABC = 1;'') 7 = None"
  by code_simp+

lemma positionAt_example:
  "positionAt \<lparr>uri = u, version = v, content = utf16 ''let ABC = 1;''\<rparr> 4 =
     \<lparr>line = 0, character = 4\<rparr>"
  "positionAt \<lparr>uri = u, version = v, content = utf16 ''let ABC = 1;''\<rparr> 7 =
     \<lparr>line = 0, character = 7\<rparr>"
  by (simp_all add: positionAt_def getLineOffsets_def utf16_def isEOL_def Let_def)

lemma validateBody_example:
  "validateBody rel \<lparr>uri = u, version = v, content = utf16 ''let ABC = 1;''\<rparr> defaultSettings =
     [errorDiagnostic rel \<lparr>uri = u, version = v, content = utf16 ''let ABC = 1;''\<rparr> 4 7]"
  by (simp add: validateBody_def validateLoop.simps exec_example defaultSettings_def)

section \<open>The text \<open>AB CD EF\<close>\<close>

lemma specMatches_example: "specMatches (utf16 ''AB CD EF'') = [(0, 2), (3, 5), (6, 8)]"
  by code_simp

lemma substring_example:
  "substring (utf16 ''AB CD EF'') 0 2 @ utf16 '' is all uppercase.'' = utf16 ''AB is all uppercase.''"
  "substring (utf16 ''AB CD EF'') 3 5 @ utf16 '' is all uppercase.'' = utf16 ''CD is all uppercase.''"
  by (simp_all add: substring_def utf16_def)

section \<open>Properties of the server\<close>

text \<open>
  C1. For every document and every settings whose \<open>maxErrorCount\<close> is a non-negative
  integer, the validator returns at most \<open>maxErrorCount\<close> findings, and exactly the
  smaller of \<open>maxErrorCount\<close> and the number of matches of the text, where a match is a
  whole-word run of two or more capitals.
\<close>

theorem validate_count:
  "0 \<le> maxErrorCount st \<Longrightarrow>
   int (length (validateBody rel doc st)) \<le> maxErrorCount st \<and>
   int (length (validateBody rel doc st)) =
     min (int (matchCount (content doc))) (maxErrorCount st)"
proof -
  assume h: "0 \<le> maxErrorCount st"
  have l: "length (validateBody rel doc st) =
           min (matchCount (content doc)) (nat (maxErrorCount st))"
    by (simp add: validateBody_spec matchCount_def)
  from h show ?thesis unfolding l by arith
qed

theorem validate_count_witness:
  "(0::int) \<le> maxErrorCount \<lparr>maxErrorCount = 2\<rparr> \<and>
   matchCount (utf16 ''AB CD EF'') = 3 \<and>
   length (validateBody False \<lparr>uri = utf16 ''a'', version = 1, content = utf16 ''AB CD EF''\<rparr>
             \<lparr>maxErrorCount = 2\<rparr>) = 2"
proof -
  have h: "(0::int) \<le> maxErrorCount \<lparr>maxErrorCount = 2\<rparr>" by simp
  have c: "matchCount (utf16 ''AB CD EF'') = 3"
    by (simp add: matchCount_def specMatches_example)
  from validate_count [OF h, of False
      "\<lparr>uri = utf16 ''a'', version = 1, content = utf16 ''AB CD EF''\<rparr>"]
  have "int (length (validateBody False
          \<lparr>uri = utf16 ''a'', version = 1, content = utf16 ''AB CD EF''\<rparr>
          \<lparr>maxErrorCount = 2\<rparr>)) = 2"
    by (simp add: c)
  with h c show ?thesis by simp
qed

text \<open>
  C2. The ranges of the findings, turned back into offsets by the offset table of the
  document, are the first matches of the text in their order from left to right, as many
  as the cap lets through; each ends no later than the next begins. The range of every
  finding runs from the first character of its match to the position after its last
  character, and the text between the two is the word named in its message.
\<close>

theorem validate_order_and_ranges:
  "map (decodeRange doc) (validateBody rel doc st) =
     take (nat (maxErrorCount st)) (specMatches (content doc)) \<and>
   sorted_wrt (\<lambda>a b. snd a \<le> fst b) (map (decodeRange doc) (validateBody rel doc st)) \<and>
   (\<forall>d \<in> set (validateBody rel doc st).
      fst (decodeRange doc d) < snd (decodeRange doc d) \<and>
      snd (decodeRange doc d) \<le> length (content doc) \<and>
      wholeWordUpperRun (content doc) (fst (decodeRange doc d))
        (snd (decodeRange doc d) - fst (decodeRange doc d)) \<and>
      range_of d = \<lparr>range_start = positionAt doc (fst (decodeRange doc d)),
                    range_end = positionAt doc (snd (decodeRange doc d))\<rparr> \<and>
      message d =
        substring (content doc) (fst (decodeRange doc d)) (snd (decodeRange doc d)) @
        utf16 '' is all uppercase.'')"
proof -
  let ?ms = "take (nat (maxErrorCount st)) (specMatches (content doc))"
  have el: "fst m \<le> snd m \<and> wholeWordUpperRun (content doc) (fst m) (snd m - fst m) \<and>
      fst m + 2 \<le> snd m \<and> snd m \<le> length (content doc)" if "m \<in> set ?ms" for m
    using that specMatchesFrom_elem [of m "content doc" 0]
    by (auto simp add: specMatches_def dest: in_set_takeD)
  then have 1: "map (decodeRange doc) (validateBody rel doc st) = ?ms"
    unfolding validateBody_spec by (intro decode_matches) simp
  have 2: "sorted_wrt (\<lambda>a b. snd a \<le> fst b) ?ms"
    unfolding specMatches_def by (intro sorted_wrt_take specMatchesFrom_sorted)
  have 3: "fst (decodeRange doc d) < snd (decodeRange doc d) \<and>
      snd (decodeRange doc d) \<le> length (content doc) \<and>
      wholeWordUpperRun (content doc) (fst (decodeRange doc d))
        (snd (decodeRange doc d) - fst (decodeRange doc d)) \<and>
      range_of d = \<lparr>range_start = positionAt doc (fst (decodeRange doc d)),
                    range_end = positionAt doc (snd (decodeRange doc d))\<rparr> \<and>
      message d =
        substring (content doc) (fst (decodeRange doc d)) (snd (decodeRange doc d)) @
        utf16 '' is all uppercase.''" if "d \<in> set (validateBody rel doc st)" for d
  proof -
    from that obtain m where m: "m \<in> set ?ms" "d = errorDiagnostic rel doc (fst m) (snd m)"
      unfolding validateBody_spec by auto
    from el [OF m(1)] have b: "fst m + 2 \<le> snd m" "snd m \<le> length (content doc)"
      "wholeWordUpperRun (content doc) (fst m) (snd m - fst m)" by simp_all
    then have "decodeRange doc d = (fst m, snd m)"
      unfolding m(2) by (intro decodeRange_errorDiagnostic) simp_all
    with b show ?thesis by (simp add: m(2) errorDiagnostic_def Let_def)
  qed
  from 1 2 3 show ?thesis by simp
qed

theorem validate_order_and_ranges_witness:
  "map (decodeRange \<lparr>uri = utf16 ''a'', version = 1, content = utf16 ''AB CD EF''\<rparr>)
     (validateBody True \<lparr>uri = utf16 ''a'', version = 1, content = utf16 ''AB CD EF''\<rparr>
        \<lparr>maxErrorCount = 2\<rparr>) = [(0, 2), (3, 5)] \<and>
   map message
     (validateBody True \<lparr>uri = utf16 ''a'', version = 1, content = utf16 ''AB CD EF''\<rparr>
        \<lparr>maxErrorCount = 2\<rparr>) =
     [utf16 ''AB is all uppercase.'', utf16 ''CD is all uppercase.'']"
proof -
  let ?doc = "\<lparr>uri = utf16 ''a'', version = 1, content = utf16 ''AB CD EF''\<rparr>"
  let ?ds = "validateBody True ?doc \<lparr>maxErrorCount = 2\<rparr>"
  note t = validate_order_and_ranges [of ?doc True "\<lparr>maxErrorCount = 2\<rparr>"]
  from t have m: "map (decodeRange ?doc) ?ds = [(0, 2), (3, 5)]"
    by (simp add: specMatches_example)
  then obtain d0 d1 where ds: "?ds = [d0, d1]"
    and d: "decodeRange ?doc d0 = (0, 2)" "decodeRange ?doc d1 = (3, 5)"
    by (auto simp add: map_eq_Cons_conv)
  from t have "\<forall>d \<in> set ?ds. message d =
      substring (content ?doc) (fst (decodeRange ?doc d)) (snd (decodeRange ?doc d)) @
      utf16 '' is all uppercase.''"
    by blast
  then have "message d0 = utf16 ''AB is all uppercase.''"
    "message d1 = utf16 ''CD is all uppercase.''"
    unfolding ds by (simp_all add: d substring_example)
  with m show ?thesis by (simp add: ds)
qed

text \<open>
  C3. A diagnostics pull for a URI that the document manager does not hold returns a full
  report with no items, whatever the peer would answer to a configuration pull; nothing is
  sent and the session is left as it was.
\<close>

theorem diagnostics_unknown_document:
  "documents s u = None \<Longrightarrow>
   diagnostics_on s env u = (Inr \<lparr>kind = FullReport, items = []\<rparr>, s)"
  by (simp add: diagnostics_on_def)

theorem diagnostics_unknown_document_witness:
  "documents initialSession (utf16 ''file:///a.str'') = None \<and>
   diagnostics_on initialSession (\<lambda>h. Inl ResponseError) (utf16 ''file:///a.str'') =
     (Inr \<lparr>kind = FullReport, items = []\<rparr>, initialSession)"
  using diagnostics_unknown_document
    [of initialSession "utf16 ''file:///a.str''" "\<lambda>h. Inl ResponseError"]
  by (simp add: initialSession_def)

text \<open>
  C4. With the configuration pull supported, in any state a session reaches: after a
  lookup for a URI, and after any further events that do not take the URI out of the cache
  (no configuration change, no close of that URI), a second lookup returns the promise of
  the first and sends nothing, whether or not the first has been answered. When the URI
  was not cached, the first lookup sends one configuration request, for that URI and the
  section of the server, and after the second lookup that is still the only new request
  for the URI. A configuration change raises no error here; after it the cache holds
  nothing for the URI, and the next lookup sends a new request and returns a new promise.
\<close>

theorem settings_cache_single_pull:
  "hasConfigurationCapability s \<Longrightarrow> reachable s \<Longrightarrow>
   (list_all (\<lambda>ev. \<not> invalidates u ev) evs \<longrightarrow>
      getDocumentSettings (run env (snd (getDocumentSettings s u)) evs) u =
        (fst (getDocumentSettings s u), run env (snd (getDocumentSettings s u)) evs) \<and>
      (documentSettings s u = None \<longrightarrow>
         fst (getDocumentSettings s u) = Pending (length (outbound s)) \<and>
         outbound (snd (getDocumentSettings s u)) =
           outbound s @ [ConfigurationRequest u (utf16 ''strudelLanguageServer'')] \<and>
         pullsFor u (run env (snd (getDocumentSettings s u)) evs) = Suc (pullsFor u s))) \<and>
   onDidChangeConfiguration s change = Inr (step env s (DidChangeConfiguration change)) \<and>
   documentSettings (step env s (DidChangeConfiguration change)) u = None \<and>
   fst (getDocumentSettings (step env s (DidChangeConfiguration change)) u) =
     Pending (length (outbound (step env s (DidChangeConfiguration change)))) \<and>
   outbound (snd (getDocumentSettings (step env s (DidChangeConfiguration change)) u)) =
     outbound (step env s (DidChangeConfiguration change)) @
       [ConfigurationRequest u (utf16 ''strudelLanguageServer'')]"
proof -
  assume cap: "hasConfigurationCapability s" and r: "reachable s"
  define s1 where "s1 = snd (getDocumentSettings s u)"
  define h where "h = (case documentSettings s u of Some h \<Rightarrow> h | None \<Rightarrow> length (outbound s))"
  note f = first_lookup [OF cap, of u, folded s1_def h_def]
  have wk: "wellKeyed s1"
    using reachable_wellKeyed [OF r] f(5) by (simp add: wellKeyed_def)
  have 1: "getDocumentSettings (run env s1 evs) u = (fst (getDocumentSettings s u), run env s1 evs)"
    and 2: "pullsFor u (run env s1 evs) = pullsFor u s1"
    if l: "list_all (\<lambda>ev. \<not> invalidates u ev) evs"
  proof -
    from run_keeps [OF f(2) l wk, of env]
    have k: "documentSettings (run env s1 evs) u = Some h"
      "pullsFor u (run env s1 evs) = pullsFor u s1" by simp_all
    have c: "hasConfigurationCapability (run env s1 evs)"
      using cap by (simp add: run_flag s1_def getDocumentSettings_flags)
    from cached_lookup [OF c k(1)] f(1)
    show "getDocumentSettings (run env s1 evs) u =
        (fst (getDocumentSettings s u), run env s1 evs)" by simp
    from k(2) show "pullsFor u (run env s1 evs) = pullsFor u s1" .
  qed
  have 3: "fst (getDocumentSettings s u) = Pending (length (outbound s))"
    if "documentSettings s u = None"
    using f(1) that by (simp add: h_def)
  have 5: "onDidChangeConfiguration s change = Inr (step env s (DidChangeConfiguration change))"
    using cap by (intro onDidChangeConfiguration_ok) simp
  have 4: "documentSettings (step env s (DidChangeConfiguration change)) u = None"
    "fst (getDocumentSettings (step env s (DidChangeConfiguration change)) u) =
       Pending (length (outbound (step env s (DidChangeConfiguration change))))"
    "outbound (snd (getDocumentSettings (step env s (DidChangeConfiguration change)) u)) =
       outbound (step env s (DidChangeConfiguration change)) @
         [ConfigurationRequest u (utf16 ''strudelLanguageServer'')]"
    using cap
    by (simp_all add: getDocumentSettings_def step_configuration Let_def)
  show ?thesis
    unfolding s1_def [symmetric]
    using 1 2 3 4 5 f(3) f(4) by simp
qed

theorem settings_cache_single_pull_witness:
  "hasConfigurationCapability (initialSession\<lparr>hasConfigurationCapability := True\<rparr>) \<and>
   reachable (initialSession\<lparr>hasConfigurationCapability := True\<rparr>) \<and>
   list_all (\<lambda>ev. \<not> invalidates (utf16 ''a'') ev)
     [DidOpen \<lparr>uri = utf16 ''b'', version = 1, content = utf16 ''AB''\<rparr>,
      DiagnosticsPull (utf16 ''b'')] \<and>
   documentSettings (initialSession\<lparr>hasConfigurationCapability := True\<rparr>) (utf16 ''a'') = None \<and>
   fst (getDocumentSettings
      (run (\<lambda>h. Inl ResponseError)
         (snd (getDocumentSettings (initialSession\<lparr>hasConfigurationCapability := True\<rparr>)
                 (utf16 ''a'')))
         [DidOpen \<lparr>uri = utf16 ''b'', version = 1, content = utf16 ''AB''\<rparr>,
          DiagnosticsPull (utf16 ''b'')])
      (utf16 ''a'')) = Pending 0 \<and>
   pullsFor (utf16 ''a'')
     (snd (getDocumentSettings
        (run (\<lambda>h. Inl ResponseError)
           (snd (getDocumentSettings (initialSession\<lparr>hasConfigurationCapability := True\<rparr>)
                   (utf16 ''a'')))
           [DidOpen \<lparr>uri = utf16 ''b'', version = 1, content = utf16 ''AB''\<rparr>,
            DiagnosticsPull (utf16 ''b'')])
        (utf16 ''a''))) = 1 \<and>
   outbound (snd (getDocumentSettings
      (step (\<lambda>h. Inl ResponseError) (initialSession\<lparr>hasConfigurationCapability := True\<rparr>)
         (DidChangeConfiguration \<lparr>change_settings = SettingsNull\<rparr>)) (utf16 ''a''))) =
     [DiagnosticsRefresh,
      ConfigurationRequest (utf16 ''a'') (utf16 ''strudelLanguageServer'')]"
proof -
  let ?s = "initialSession\<lparr>hasConfigurationCapability := True\<rparr>"
  let ?evs = "[DidOpen \<lparr>uri = utf16 ''b'', version = 1, content = utf16 ''AB''\<rparr>,
               DiagnosticsPull (utf16 ''b'')]"
  have cap: "hasConfigurationCapability ?s" by simp
  have l: "list_all (\<lambda>ev. \<not> invalidates (utf16 ''a'') ev) ?evs"
    by (simp add: invalidates_def)
  have miss: "documentSettings ?s (utf16 ''a'') = None" "pullsFor (utf16 ''a'') ?s = 0"
    "outbound ?s = []"
    by (simp_all add: initialSession_def pullsFor_def)
  have o: "outbound (step (\<lambda>h. Inl ResponseError) ?s
        (DidChangeConfiguration \<lparr>change_settings = SettingsNull\<rparr>)) = [DiagnosticsRefresh]"
    by (simp add: step_configuration initialSession_def)
  from settings_cache_single_pull [OF cap reachable_pull, of "utf16 ''a''" ?evs
      "\<lambda>h. Inl ResponseError" "\<lparr>change_settings = SettingsNull\<rparr>"]
    cap reachable_pull l miss o
  show ?thesis by simp
qed

text \<open>
  C5. The findings of a validation carry related information as the negotiated flag says:
  with the flag off no finding has the field; with the flag on every finding has two
  entries, both at the URI of the document and with the range of the finding itself, the
  first with the message \<open>Spelling matters\<close>, the second with \<open>Especially for names\<close>.
\<close>

theorem related_information_by_capability:
  "validateTextDocument s env doc = (Inr ds, s1) \<Longrightarrow>
   \<forall>d \<in> set ds.
     relatedInformation d =
       (if hasDiagnosticRelatedInformationCapability s then
          Some [\<lparr>location = \<lparr>loc_uri = uri doc, loc_range = range_of d\<rparr>,
                 ri_message = utf16 ''Spelling matters''\<rparr>,
                \<lparr>location = \<lparr>loc_uri = uri doc, loc_range = range_of d\<rparr>,
                 ri_message = utf16 ''Especially for names''\<rparr>]
        else None)"
proof
  fix d
  assume v: "validateTextDocument s env doc = (Inr ds, s1)" and d: "d \<in> set ds"
  from v obtain st where
    "ds = validateBody (hasDiagnosticRelatedInformationCapability s) doc st"
    by (auto simp add: validateTextDocument_def
        split: prod.splits sum.splits dest: getDocumentSettings_rel)
  with d obtain a b where
    "d = errorDiagnostic (hasDiagnosticRelatedInformationCapability s) doc a b"
    by (blast dest: validateBody_elem)
  then show "relatedInformation d =
       (if hasDiagnosticRelatedInformationCapability s then
          Some [\<lparr>location = \<lparr>loc_uri = uri doc, loc_range = range_of d\<rparr>,
                 ri_message = utf16 ''Spelling matters''\<rparr>,
                \<lparr>location = \<lparr>loc_uri = uri doc, loc_range = range_of d\<rparr>,
                 ri_message = utf16 ''Especially for names''\<rparr>]
        else None)"
    by (simp add: errorDiagnostic_def Let_def)
qed

theorem related_information_by_capability_witness:
  "validateTextDocument initialSession (\<lambda>h. Inl ResponseError)
     \<lparr>uri = utf16 ''a'', version = 1, content = utf16 ''let ABC = 1;''\<rparr> =
     (Inr [errorDiagnostic False
             \<lparr>uri = utf16 ''a'', version = 1, content = utf16 ''let ABC = 1;''\<rparr> 4 7],
      initialSession) \<and>
   relatedInformation (errorDiagnostic False
      \<lparr>uri = utf16 ''a'', version = 1, content = utf16 ''let ABC = 1;''\<rparr> 4 7) = None \<and>
   validateTextDocument (initialSession\<lparr>hasDiagnosticRelatedInformationCapability := True\<rparr>)
     (\<lambda>h. Inl ResponseError)
     \<lparr>uri = utf16 ''a'', version = 1, content = utf16 ''let ABC = 1;''\<rparr> =
     (Inr [errorDiagnostic True
             \<lparr>uri = utf16 ''a'', version = 1, content = utf16 ''let ABC = 1;''\<rparr> 4 7],
      initialSession\<lparr>hasDiagnosticRelatedInformationCapability := True\<rparr>) \<and>
   map_option (map ri_message) (relatedInformation (errorDiagnostic True
      \<lparr>uri = utf16 ''a'', version = 1, content = utf16 ''let ABC = 1;''\<rparr> 4 7)) =
     Some [utf16 ''Spelling matters'', utf16 ''Especially for names'']"
proof -
  let ?doc = "\<lparr>uri = utf16 ''a'', version = 1, content = utf16 ''let ABC = 1;''\<rparr>"
  let ?on = "initialSession\<lparr>hasDiagnosticRelatedInformationCapability := True\<rparr>"
  have off: "validateTextDocument initialSession (\<lambda>h. Inl ResponseError) ?doc =
      (Inr [errorDiagnostic False ?doc 4 7], initialSession)"
    by (simp add: validateTextDocument_def getDocumentSettings_def await_def
        initialSession_def validateBody_example)
  have on: "validateTextDocument ?on (\<lambda>h. Inl ResponseError) ?doc =
      (Inr [errorDiagnostic True ?doc 4 7], ?on)"
    by (simp add: validateTextDocument_def getDocumentSettings_def await_def
        initialSession_def validateBody_example)
  from related_information_by_capability [OF off]
  have a: "relatedInformation (errorDiagnostic False ?doc 4 7) = None"
    by (simp add: initialSession_def)
  from related_information_by_capability [OF on]
  have b: "map_option (map ri_message) (relatedInformation (errorDiagnostic True ?doc 4 7)) =
      Some [utf16 ''Spelling matters'', utf16 ''Especially for names'']"
    by (simp add: initialSession_def)
  from off on a b show ?thesis by blast
qed

text \<open>
  C6, as amended. When the payload of \<open>initialize\<close> has a \<open>capabilities\<close> value (not
  \<open>undefined\<close>, not \<open>null\<close>), the handler raises no error and each flag is the
  truthiness of its capability field, read behind the truthiness of the fields above it.
  So a flag is false when \<open>workspace\<close> (or \<open>textDocument\<close>, \<open>publishDiagnostics\<close>) is
  absent or falsy, or is no object, and when the sub-field itself is absent or falsy; a
  sub-field of the wrong type that is truthy counts as support.
\<close>

theorem negotiate_flags:
  assumes "capabilities params \<noteq> JUndefined" and "capabilities params \<noteq> JNull"
  shows "negotiatedFlags (onInitialize s params) =
     Inr (truthy (field (capabilities params) ''workspace'') \<and>
            truthy (field (field (capabilities params) ''workspace'') ''configuration''),
          truthy (field (capabilities params) ''workspace'') \<and>
            truthy (field (field (capabilities params) ''workspace'') ''workspaceFolders''),
          truthy (field (capabilities params) ''textDocument'') \<and>
            truthy (field (field (capabilities params) ''textDocument'') ''publishDiagnostics'') \<and>
            truthy (field (field (field (capabilities params) ''textDocument'')
                             ''publishDiagnostics'') ''relatedInformation''))"
  unfolding onInitialize_def Let_def getProp_field [OF assms] bind_Inr andAlso_read
    andAlso_read_last negotiatedFlags_def
  by (simp add: bind_Inr)

theorem negotiate_flags_witness:
  "capabilities \<lparr>capabilities = JObj [(''textDocument'', JObj [(''publishDiagnostics'', JNum 7)])]\<rparr>
     \<noteq> JUndefined \<and>
   capabilities \<lparr>capabilities = JObj [(''textDocument'', JObj [(''publishDiagnostics'', JNum 7)])]\<rparr>
     \<noteq> JNull \<and>
   negotiatedFlags (onInitialize initialSession
     \<lparr>capabilities = JObj [(''textDocument'', JObj [(''publishDiagnostics'', JNum 7)])]\<rparr>) =
     Inr (False, False, False)"
  using negotiate_flags
    [of "\<lparr>capabilities = JObj [(''textDocument'', JObj [(''publishDiagnostics'', JNum 7)])]\<rparr>"
        initialSession]
  by (simp add: field_def)

text \<open>
  A malformed sub-field does not always default to false: \<open>workspaceFolders\<close> given as
  the string \<open>no\<close> instead of a boolean is truthy, and the workspace-folder flag is set.
\<close>

theorem negotiate_malformed_counterexample:
  "negotiatedFlags (onInitialize initialSession
     \<lparr>capabilities = JObj [(''workspace'', JObj [(''workspaceFolders'', JStr (utf16 ''no''))])]\<rparr>) =
     Inr (False, True, False)"
  by (simp add: onInitialize_def negotiatedFlags_def bind_def andAlso_def initialSession_def
      utf16_def)

text \<open>
  C7. For a document with the text \<open>let ABC = 1;\<close> and the default settings, whose cap is
  100, the validator returns one finding from \<open>strudel\<close> with the message
  \<open>ABC is all uppercase.\<close>, whose range runs from column 4 to column 7 of line 0, which
  are the offsets 4 and 7 of the text and enclose \<open>ABC\<close>. Its severity is the number 1,
  the \<open>Warning\<close> of the module \<open>vscode\<close>; the protocol reads 1 as \<open>Error\<close>, and its
  own \<open>Warning\<close> is 2. The finding is therefore not sent as a warning.
\<close>

theorem scenario_let_ABC:
  "defaultSettings = \<lparr>maxErrorCount = 100\<rparr> \<and>
   validateBody rel \<lparr>uri = u, version = v, content = utf16 ''let ABC = 1;''\<rparr> defaultSettings =
     [\<lparr>severity = 1,
       range_of = \<lparr>range_start = \<lparr>line = 0, character = 4\<rparr>,
                   range_end = \<lparr>line = 0, character = 7\<rparr>\<rparr>,
       message = utf16 ''ABC is all uppercase.'',
       source = utf16 ''strudel'',
       relatedInformation =
         (if rel then
            Some [\<lparr>location =
                     \<lparr>loc_uri = u,
                      loc_range = \<lparr>range_start = \<lparr>line = 0, character = 4\<rparr>,
                                    range_end = \<lparr>line = 0, character = 7\<rparr>\<rparr>\<rparr>,
                   ri_message = utf16 ''Spelling matters''\<rparr>,
                  \<lparr>location =
                     \<lparr>loc_uri = u,
                      loc_range = \<lparr>range_start = \<lparr>line = 0, character = 4\<rparr>,
                                    range_end = \<lparr>line = 0, character = 7\<rparr>\<rparr>\<rparr>,
                   ri_message = utf16 ''Especially for names''\<rparr>]
          else None)\<rparr>] \<and>
   map (decodeRange \<lparr>uri = u, version = v, content = utf16 ''let ABC = 1;''\<rparr>)
     (validateBody rel \<lparr>uri = u, version = v, content = utf16 ''let ABC = 1;''\<rparr>
        defaultSettings) = [(4, 7)] \<and>
   substring (utf16 ''let ABC = 1;'') 4 7 = utf16 ''ABC'' \<and>
   map (\<lambda>d. protocolSeverity (severity d))
     (validateBody rel \<lparr>uri = u, version = v, content = utf16 ''let ABC = 1;''\<rparr>
        defaultSettings) = [Some Error] \<and>
   protocolSeverity 2 = Some Warning"
proof -
  have a: "defaultSettings = \<lparr>maxErrorCount = 100\<rparr>"
    by (simp add: defaultSettings_def)
  have b: "substring (utf16 ''let ABC = 1;'') 4 7 = utf16 ''ABC''"
    by (simp add: substring_def utf16_def)
  have c: "utf16 ''ABC'' @ utf16 '' is all uppercase.'' = utf16 ''ABC is all uppercase.''"
    by (simp add: utf16_def)
  have d: "offsetAt \<lparr>uri = u, version = v, content = utf16 ''let ABC = 1;''\<rparr>
             \<lparr>line = 0, character = 4\<rparr> = 4"
    "offsetAt \<lparr>uri = u, version = v, content = utf16 ''let ABC = 1;''\<rparr>
             \<lparr>line = 0, character = 7\<rparr> = 7"
    by (simp_all add: offsetAt_def getLineOffsets_def utf16_def isEOL_def Let_def)
  have e: "validateBody rel \<lparr>uri = u, version = v, content = utf16 ''let ABC = 1;''\<rparr>
             defaultSettings =
     [\<lparr>severity = 1,
       range_of = \<lparr>range_start = \<lparr>line = 0, character = 4\<rparr>,
                   range_end = \<lparr>line = 0, character = 7\<rparr>\<rparr>,
       message = utf16 ''ABC is all uppercase.'',
       source = utf16 ''strudel'',
       relatedInformation =
         (if rel then
            Some [\<lparr>location =
                     \<lparr>loc_uri = u,
                      loc_range = \<lparr>range_start = \<lparr>line = 0, character = 4\<rparr>,
                                    range_end = \<lparr>line = 0, character = 7\<rparr>\<rparr>\<rparr>,
                   ri_message = utf16 ''Spelling matters''\<rparr>,
                  \<lparr>location =
                     \<lparr>loc_uri = u,
                      loc_range = \<lparr>range_start = \<lparr>line = 0, character = 4\<rparr>,
                                    range_end = \<lparr>line = 0, character = 7\<rparr>\<rparr>\<rparr>,
                   ri_message = utf16 ''Especially for names''\<rparr>]
          else None)\<rparr>]"
    unfolding validateBody_example errorDiagnostic_def Let_def positionAt_example
    by (simp add: b c)
  have f: "map (decodeRange \<lparr>uri = u, version = v, content = utf16 ''let ABC = 1;''\<rparr>)
     (validateBody rel \<lparr>uri = u, version = v, content = utf16 ''let ABC = 1;''\<rparr>
        defaultSettings) = [(4, 7)]"
    unfolding e by (simp add: decodeRange_def d)
  have g: "map (\<lambda>d. protocolSeverity (severity d))
     (validateBody rel \<lparr>uri = u, version = v, content = utf16 ''let ABC = 1;''\<rparr>
        defaultSettings) = [Some Error]"
    unfolding e by (simp add: protocolSeverity_def)
  have h: "protocolSeverity 2 = Some Warning"
    by (simp add: protocolSeverity_def)
  from a b e f g h show ?thesis by blast
qed

text \<open>
  C8. A completion candidate whose \<open>data\<close> is neither the number 1 nor the number 2 comes
  back from \<open>resolve\<close> as it went in, every field included (the record may have further
  fields).
\<close>

theorem resolve_unrecognized_unchanged:
  "data item \<noteq> JNum 1 \<Longrightarrow> data item \<noteq> JNum 2 \<Longrightarrow> onCompletionResolve item = item"
  by (simp add: onCompletionResolve_def)

theorem resolve_unrecognized_unchanged_witness:
  "data \<lparr>label = utf16 ''Rust'', item_kind = Some Text, data = JStr (utf16 ''1''),
         detail = Some (utf16 ''kept''), documentation = None\<rparr> \<noteq> JNum 1 \<and>
   data \<lparr>label = utf16 ''Rust'', item_kind = Some Text, data = JStr (utf16 ''1''),
         detail = Some (utf16 ''kept''), documentation = None\<rparr> \<noteq> JNum 2 \<and>
   onCompletionResolve
     \<lparr>label = utf16 ''Rust'', item_kind = Some Text, data = JStr (utf16 ''1''),
      detail = Some (utf16 ''kept''), documentation = None\<rparr> =
     \<lparr>label = utf16 ''Rust'', item_kind = Some Text, data = JStr (utf16 ''1''),
      detail = Some (utf16 ''kept''), documentation = None\<rparr>"
  using resolve_unrecognized_unchanged
    [of "\<lparr>label = utf16 ''Rust'', item_kind = Some Text, data = JStr (utf16 ''1''),
          detail = Some (utf16 ''kept''), documentation = None\<rparr>"]
  by simp

text \<open>
  C9. In every state a session reaches, the configuration-pull flag decides where settings
  come from, and no event changes the flag. With the flag off, the cache is empty and
  stays empty after any event, and every lookup resolves at once to the global settings
  and changes nothing. With the flag on, no event changes the global settings, no lookup
  depends on them, and every lookup returns a pending promise: the cached one, or that of
  a request sent by this lookup.
\<close>

theorem settings_authority:
  "reachable s \<Longrightarrow>
   (\<forall>env ev. hasConfigurationCapability (step env s ev) = hasConfigurationCapability s) \<and>
   (\<not> hasConfigurationCapability s \<longrightarrow>
      documentSettings s = Map.empty \<and>
      (\<forall>env ev. documentSettings (step env s ev) = Map.empty) \<and>
      (\<forall>u. getDocumentSettings s u = (Resolved (globalSettings s), s))) \<and>
   (hasConfigurationCapability s \<longrightarrow>
      (\<forall>env ev. globalSettings (step env s ev) = globalSettings s) \<and>
      (\<forall>u g. fst (getDocumentSettings (s\<lparr>globalSettings := g\<rparr>) u) =
               fst (getDocumentSettings s u)) \<and>
      (\<forall>u. fst (getDocumentSettings s u) =
             Pending (case documentSettings s u of
                        Some h \<Rightarrow> h | None \<Rightarrow> length (outbound s))) \<and>
      (\<forall>u h. documentSettings s u = Some h \<longrightarrow> snd (getDocumentSettings s u) = s) \<and>
      (\<forall>u. documentSettings s u = None \<longrightarrow>
             outbound (snd (getDocumentSettings s u)) =
               outbound s @ [ConfigurationRequest u (utf16 ''strudelLanguageServer'')]))"
proof -
  assume r: "reachable s"
  have off: "\<not> hasConfigurationCapability s \<Longrightarrow> documentSettings s = Map.empty"
    using r by (rule reachable_cache_empty)
  have off_step: "\<not> hasConfigurationCapability s \<Longrightarrow>
      documentSettings (step env s ev) = Map.empty" for env ev
    using off step_cache_empty by blast
  have on_step: "hasConfigurationCapability s \<Longrightarrow>
      globalSettings (step env s ev) = globalSettings s" for env ev
    by (simp add: step_globalSettings)
  show ?thesis
    using off off_step on_step
    by (simp add: step_flag getDocumentSettings_def Let_def split: option.splits)
qed

theorem settings_authority_witness:
  "reachable initialSession \<and>
   reachable (initialSession\<lparr>hasConfigurationCapability := True\<rparr>) \<and>
   documentSettings (step (\<lambda>h. Inl ResponseError) initialSession
      (DiagnosticsPull (utf16 ''a''))) = Map.empty \<and>
   getDocumentSettings initialSession (utf16 ''a'') =
     (Resolved \<lparr>maxErrorCount = 100\<rparr>, initialSession) \<and>
   fst (getDocumentSettings (initialSession\<lparr>hasConfigurationCapability := True\<rparr>) (utf16 ''a'')) =
     Pending 0 \<and>
   outbound (snd (getDocumentSettings (initialSession\<lparr>hasConfigurationCapability := True\<rparr>)
                    (utf16 ''a''))) =
     [ConfigurationRequest (utf16 ''a'') (utf16 ''strudelLanguageServer'')]"
proof -
  note off = settings_authority [OF reachable_plain]
  note on = settings_authority [OF reachable_pull]
  have f: "\<not> hasConfigurationCapability initialSession"
    "hasConfigurationCapability (initialSession\<lparr>hasConfigurationCapability := True\<rparr>)"
    "documentSettings (initialSession\<lparr>hasConfigurationCapability := True\<rparr>) (utf16 ''a'') = None"
    "outbound (initialSession\<lparr>hasConfigurationCapability := True\<rparr>) = []"
    "globalSettings initialSession = \<lparr>maxErrorCount = 100\<rparr>"
    by (simp_all add: initialSession_def defaultSettings_def)
  from off f(1) have a: "documentSettings (step (\<lambda>h. Inl ResponseError) initialSession
      (DiagnosticsPull (utf16 ''a''))) = Map.empty"
    by blast
  from off f(1) have b: "getDocumentSettings initialSession (utf16 ''a'') =
      (Resolved (globalSettings initialSession), initialSession)"
    by blast
  from on f(2) have "fst (getDocumentSettings
        (initialSession\<lparr>hasConfigurationCapability := True\<rparr>) (utf16 ''a'')) =
      Pending (case documentSettings (initialSession\<lparr>hasConfigurationCapability := True\<rparr>)
                      (utf16 ''a'') of
                 Some h \<Rightarrow> h
               | None \<Rightarrow> length (outbound (initialSession\<lparr>hasConfigurationCapability := True\<rparr>)))"
    by blast
  then have c: "fst (getDocumentSettings
        (initialSession\<lparr>hasConfigurationCapability := True\<rparr>) (utf16 ''a'')) = Pending 0"
    by (simp add: initialSession_def)
  from on f(2) f(3) have "outbound (snd (getDocumentSettings
        (initialSession\<lparr>hasConfigurationCapability := True\<rparr>) (utf16 ''a''))) =
      outbound (initialSession\<lparr>hasConfigurationCapability := True\<rparr>) @
        [ConfigurationRequest (utf16 ''a'') (utf16 ''strudelLanguageServer'')]"
    by blast
  then have d: "outbound (snd (getDocumentSettings
        (initialSession\<lparr>hasConfigurationCapability := True\<rparr>) (utf16 ''a''))) =
      [ConfigurationRequest (utf16 ''a'') (utf16 ''strudelLanguageServer'')]"
    by (simp add: f)
  show ?thesis
    using reachable_plain reachable_pull a b c d by (simp add: f)
qed

text \<open>
  C10, as amended. With the configuration pull unsupported, a configuration change whose
  \<open>settings\<close> value is an object raises no error and sets the global settings to the
  \<open>strudelLanguageServer\<close> value of the notification, or to the default settings, whose
  \<open>maxErrorCount\<close> is 100, when there is none. From then on, after any events that are
  not configuration changes, a lookup for any URI resolves to that value.
\<close>

theorem configuration_change_global:
  "\<not> hasConfigurationCapability s \<Longrightarrow> change_settings change = SettingsObject obj \<Longrightarrow>
   onDidChangeConfiguration s change = Inr (step env s (DidChangeConfiguration change)) \<and>
   globalSettings (step env s (DidChangeConfiguration change)) =
     (case strudelLanguageServer obj of
        Some v \<Rightarrow> v | None \<Rightarrow> \<lparr>maxErrorCount = 100\<rparr>) \<and>
   (\<forall>evs u. list_all (\<lambda>ev. \<not> isConfigurationChange ev) evs \<longrightarrow>
      getDocumentSettings (run env (step env s (DidChangeConfiguration change)) evs) u =
        (Resolved (globalSettings (step env s (DidChangeConfiguration change))),
         run env (step env s (DidChangeConfiguration change)) evs))"
proof -
  assume n: "\<not> hasConfigurationCapability s"
    and o: "change_settings change = SettingsObject obj"
  let ?s1 = "step env s (DidChangeConfiguration change)"
  from o have e: "onDidChangeConfiguration s change = Inr ?s1"
    by (intro onDidChangeConfiguration_ok) simp
  have f: "\<not> hasConfigurationCapability ?s1"
    using n by (simp add: step_flag)
  have g: "globalSettings ?s1 =
     (case strudelLanguageServer obj of
        Some v \<Rightarrow> v | None \<Rightarrow> \<lparr>maxErrorCount = 100\<rparr>)"
    using n o by (simp add: step_configuration defaultSettings_def split: option.splits)
  show ?thesis
    using e f g by (simp add: getDocumentSettings_def run_flag run_globalSettings)
qed

theorem configuration_change_global_witness:
  "\<not> hasConfigurationCapability initialSession \<and>
   globalSettings (step (\<lambda>h. Inl ResponseError) initialSession
      (DidChangeConfiguration
         \<lparr>change_settings = SettingsObject \<lparr>strudelLanguageServer = Some \<lparr>maxErrorCount = 3\<rparr>\<rparr>\<rparr>)) =
     \<lparr>maxErrorCount = 3\<rparr> \<and>
   globalSettings (step (\<lambda>h. Inl ResponseError)
      (step (\<lambda>h. Inl ResponseError) initialSession
         (DidChangeConfiguration
            \<lparr>change_settings =
               SettingsObject \<lparr>strudelLanguageServer = Some \<lparr>maxErrorCount = 3\<rparr>\<rparr>\<rparr>))
      (DidChangeConfiguration
         \<lparr>change_settings = SettingsObject \<lparr>strudelLanguageServer = None\<rparr>\<rparr>)) =
     \<lparr>maxErrorCount = 100\<rparr> \<and>
   fst (getDocumentSettings
      (run (\<lambda>h. Inl ResponseError)
         (step (\<lambda>h. Inl ResponseError) initialSession
            (DidChangeConfiguration
               \<lparr>change_settings =
                  SettingsObject \<lparr>strudelLanguageServer = Some \<lparr>maxErrorCount = 3\<rparr>\<rparr>\<rparr>))
         [DidOpen \<lparr>uri = utf16 ''a'', version = 1, content = utf16 ''AB''\<rparr>,
          DiagnosticsPull (utf16 ''a'')])
      (utf16 ''b'')) = Resolved \<lparr>maxErrorCount = 3\<rparr>"
proof -
  let ?env = "\<lambda>h::nat. (Inl ResponseError :: error + StrudelSettings)"
  let ?c3 = "\<lparr>change_settings =
                SettingsObject \<lparr>strudelLanguageServer = Some \<lparr>maxErrorCount = 3\<rparr>\<rparr>\<rparr>"
  let ?c0 = "\<lparr>change_settings = SettingsObject \<lparr>strudelLanguageServer = None\<rparr>\<rparr>"
  have n: "\<not> hasConfigurationCapability initialSession"
    by (simp add: initialSession_def)
  have n2: "\<not> hasConfigurationCapability (step ?env initialSession (DidChangeConfiguration ?c3))"
    using n by (simp add: step_flag)
  have o3: "change_settings ?c3 =
      SettingsObject \<lparr>strudelLanguageServer = Some \<lparr>maxErrorCount = 3\<rparr>\<rparr>"
    and o0: "change_settings ?c0 = SettingsObject \<lparr>strudelLanguageServer = None\<rparr>"
    by simp_all
  have l: "list_all (\<lambda>ev. \<not> isConfigurationChange ev)
      [DidOpen \<lparr>uri = utf16 ''a'', version = 1, content = utf16 ''AB''\<rparr>,
       DiagnosticsPull (utf16 ''a'')]"
    by (simp add: isConfigurationChange_def)
  show ?thesis
    using n l
      configuration_change_global [OF n o3, of ?env]
      configuration_change_global [OF n2 o0, of ?env]
    by simp
qed

text \<open>
  Without the restriction to an object the statement fails: after the global settings
  have been set to a cap of 3, a configuration change whose \<open>settings\<close> is \<open>null\<close>
  throws a \<open>TypeError\<close> and the global settings stay at 3; they do not fall back to the
  default settings.
\<close>

theorem configuration_change_null_counterexample:
  "onDidChangeConfiguration
     (step (\<lambda>h. Inl ResponseError) initialSession
        (DidChangeConfiguration
           \<lparr>change_settings =
              SettingsObject \<lparr>strudelLanguageServer = Some \<lparr>maxErrorCount = 3\<rparr>\<rparr>\<rparr>))
     \<lparr>change_settings = SettingsNull\<rparr> = Inl TypeError \<and>
   fst (getDocumentSettings
      (run (\<lambda>h. Inl ResponseError) initialSession
         [DidChangeConfiguration
            \<lparr>change_settings =
               SettingsObject \<lparr>strudelLanguageServer = Some \<lparr>maxErrorCount = 3\<rparr>\<rparr>\<rparr>,
          DidChangeConfiguration \<lparr>change_settings = SettingsNull\<rparr>])
      (utf16 ''a'')) = Resolved \<lparr>maxErrorCount = 3\<rparr> \<and>
   defaultSettings = \<lparr>maxErrorCount = 100\<rparr>"
  by (simp add: run_def step_configuration onDidChangeConfiguration_def bind_def
      getDocumentSettings_def initialSession_def defaultSettings_def)

end
